theory Spec2Isabelle
  imports Complex_Main "HOL-Library.Log_Nat"
begin

section \<open>Values thrown by an operation\<close>

text \<open>
  A rejected promise carries any JavaScript value. The adapter only ever asks two things
  of it: whether it is an \<^verbatim>\<open>Error\<close> instance (then its \<^verbatim>\<open>message\<close> is read), and otherwise
  its string form \<^verbatim>\<open>String(error)\<close>.
\<close>

datatype thrown =
    ErrorObject string    \<comment> \<open>an \<^verbatim>\<open>Error\<close> instance, with its message\<close>
  | NonError string       \<comment> \<open>any other thrown value, given by its string form\<close>

text \<open>\<^verbatim>\<open>error instanceof Error ? error.message : String(error)\<close>\<close>

fun errorText :: "thrown \<Rightarrow> string" where
  "errorText (ErrorObject message) = message"
| "errorText (NonError str) = str"

text \<open>\<^verbatim>\<open>error instanceof Error ? error : new Error(String(error))\<close>\<close>

fun asError :: "thrown \<Rightarrow> thrown" where
  "asError (ErrorObject message) = ErrorObject message"
| "asError (NonError str) = ErrorObject str"

section \<open>The runtime the adapter acts on\<close>

text \<open>
  What \<^verbatim>\<open>elizaLogger\<close> receives from the retry loop: the warning before a retry (attempt,
  \<^verbatim>\<open>maxRetries\<close>, error text, delay of the next retry) and the error once the budget is
  spent (error text, \<^verbatim>\<open>totalAttempts\<close>).
\<close>

datatype log_entry =
    RetryWarning nat nat string real
  | MaxRetriesReached string nat

text \<open>
  The state threaded through every call: the remote store (\<open>world\<close>), the clock that
  \<^verbatim>\<open>Date.now()\<close> reads, the values \<^verbatim>\<open>Math.random()\<close> is going to return with the number
  already drawn, the delays handed to \<^verbatim>\<open>setTimeout\<close> (oldest first) and the log.
  A JavaScript number is the real it stands for; the arithmetic of the retry loop rounds
  (see \<open>roundDouble\<close>).
\<close>

record 'w runtime =
  world :: 'w
  clock :: real
  entropy :: "nat \<Rightarrow> real"
  drawn :: nat
  sleeps :: "real list"
  logged :: "log_entry list"

text \<open>
  An operation \<^verbatim>\<open>() => Promise<T>\<close> is a call on the remote store: it resolves (\<open>Inr\<close>) or
  rejects (\<open>Inl\<close>), and leaves the store in a new state.
\<close>

type_synonym ('w, 'a) operation = "'w \<Rightarrow> (thrown + 'a) \<times> 'w"

text \<open>A computation of the adapter itself, on the whole runtime.\<close>

type_synonym ('w, 'a) action = "'w runtime \<Rightarrow> (thrown + 'a) \<times> 'w runtime"

definition Math_random :: "'w runtime \<Rightarrow> real \<times> 'w runtime" where
  "Math_random s = (entropy s (drawn s), s\<lparr>drawn := Suc (drawn s)\<rparr>)"

definition elizaLogger_log :: "log_entry \<Rightarrow> 'w runtime \<Rightarrow> 'w runtime" where
  "elizaLogger_log e s = s\<lparr>logged := logged s @ [e]\<rparr>"

text \<open>
  \<^verbatim>\<open>await new Promise((resolve) => setTimeout(resolve, delay))\<close>: the delay is recorded and
  the clock moves on by it (a timer that fires exactly on time; a negative delay fires
  at once).
\<close>

definition setTimeout_await :: "real \<Rightarrow> 'w runtime \<Rightarrow> 'w runtime" where
  "setTimeout_await delay s = s\<lparr>clock := clock s + max 0 delay, sleeps := sleeps s @ [delay]\<rparr>"

section \<open>JavaScript numbers\<close>

text \<open>
  A JavaScript number is an IEEE 754 binary64 double, and \<^verbatim>\<open>*\<close> and \<^verbatim>\<open>+\<close> return the double
  nearest to the exact result, a tie going to the one whose last bit is even. A double
  is an integer multiple of its unit in the last place, with an integer below \<open>2 ^ 53\<close>;
  the smallest unit is \<open>2 ^ -1074\<close>. Overflow to \<^verbatim>\<open>Infinity\<close> (beyond \<open>2 ^ 1024\<close>) is not
  modelled.
\<close>

text \<open>The integer nearest to \<open>y\<close>, a tie going to the even one.\<close>

definition roundTiesToEven :: "real \<Rightarrow> int" where
  "roundTiesToEven y =
     (let n = \<lfloor>y\<rfloor>; d = y - of_int n
      in if d < 1 / 2 then n else if 1 / 2 < d then n + 1 else if even n then n else n + 1)"

definition subnormalScale :: real where
  "subnormalScale = 2 ^ 1074"

text \<open>
  The unit in the last place of the doubles around \<open>x\<close> is \<open>2 ^ ulpShift x / 2 ^ 1074\<close>:
  what is left of the bit length of \<open>\<bar>x\<bar> * 2 ^ 1074\<close> beyond the 53 bits a double holds.
\<close>

definition ulpShift :: "real \<Rightarrow> nat" where
  "ulpShift x = nat (bitlen \<lfloor>\<bar>x\<bar> * subnormalScale\<rfloor> - 53)"

text \<open>The double nearest to \<open>x\<close>.\<close>

definition roundDouble :: "real \<Rightarrow> real" where
  "roundDouble x =
     of_int (roundTiesToEven (x * subnormalScale / 2 ^ ulpShift x)) * 2 ^ ulpShift x / subnormalScale"

section \<open>The retry loop\<close>

text \<open>The four \<^verbatim>\<open>readonly\<close> fields of \<^verbatim>\<open>GlacierDBDatabaseAdapter\<close> that \<^verbatim>\<open>withRetry\<close> reads.\<close>

record retry_settings =
  maxRetries :: nat
  baseDelay :: real
  maxDelay :: real
  jitterMax :: real

definition glacier_settings :: retry_settings where
  "glacier_settings = \<lparr>maxRetries = 3, baseDelay = 1000, maxDelay = 10000, jitterMax = 1000\<rparr>"

text \<open>\<^verbatim>\<open>Math.min(this.baseDelay * Math.pow(2, attempt - 1), this.maxDelay)\<close>\<close>

definition backoffDelay :: "retry_settings \<Rightarrow> nat \<Rightarrow> real" where
  "backoffDelay cfg attempt = min (roundDouble (baseDelay cfg * 2 ^ (attempt - 1))) (maxDelay cfg)"

text \<open>
  The branch \<^verbatim>\<open>attempt < this.maxRetries\<close> of the \<^verbatim>\<open>catch\<close> block: draw the jitter
  (\<^verbatim>\<open>Math.random() * this.jitterMax\<close>), add it (\<^verbatim>\<open>backoffDelay + jitter\<close>), log the warning,
  sleep.
\<close>

definition retryLater :: "retry_settings \<Rightarrow> nat \<Rightarrow> thrown \<Rightarrow> 'w runtime \<Rightarrow> 'w runtime" where
  "retryLater cfg attempt error s =
     (let (r, s1) = Math_random s;
          jitter = roundDouble (r * jitterMax cfg);
          delay = roundDouble (backoffDelay cfg attempt + jitter);
          s2 = elizaLogger_log (RetryWarning attempt (maxRetries cfg) (errorText error) delay) s1
      in setTimeout_await delay s2)"

text \<open>
  The \<^verbatim>\<open>for\<close> loop of \<^verbatim>\<open>withRetry\<close>, from the attempt it is at; \<open>lastError\<close> is the local of
  that name, thrown when the loop ends without having returned or thrown.
\<close>

function withRetry_loop ::
  "retry_settings \<Rightarrow> ('w, 'a) operation \<Rightarrow> nat \<Rightarrow> thrown \<Rightarrow> ('w, 'a) action" where
  "withRetry_loop cfg operation attempt lastError s =
     (if attempt \<le> maxRetries cfg then
        (case operation (world s) of
           (Inr result, w) \<Rightarrow> (Inr result, s\<lparr>world := w\<rparr>)
         | (Inl error, w) \<Rightarrow>
             (if attempt < maxRetries cfg then
                withRetry_loop cfg operation (attempt + 1) error
                  (retryLater cfg attempt error (s\<lparr>world := w\<rparr>))
              else
                (Inl (asError error),
                 elizaLogger_log (MaxRetriesReached (errorText error) attempt) (s\<lparr>world := w\<rparr>))))
      else (Inl lastError, s))"
  by pat_completeness auto
termination
  by (relation "measure (\<lambda>(cfg, operation, attempt, lastError, s). maxRetries cfg + 1 - attempt)") auto

declare withRetry_loop.simps [simp del]

definition withRetry :: "retry_settings \<Rightarrow> ('w, 'a) operation \<Rightarrow> ('w, 'a) action" where
  "withRetry cfg operation s = withRetry_loop cfg operation 1 (ErrorObject ''Unknown error'') s"

text \<open>
  The world after \<open>k\<close> invocations of the operation, one after the other: where the
  \<open>k+1\<close>-th attempt of a loop finds the store when nothing else touches it.
\<close>

fun worldAfter :: "('w, 'a) operation \<Rightarrow> nat \<Rightarrow> 'w \<Rightarrow> 'w" where
  "worldAfter operation 0 w = w"
| "worldAfter operation (Suc k) w = worldAfter operation k (snd (operation w))"

section \<open>The circuit breaker\<close>

text \<open>
  \<^verbatim>\<open>withCircuitBreaker\<close> and the breaker behind it are inherited from the base class
  \<^verbatim>\<open>DatabaseAdapter\<close> of \<^verbatim>\<open>@elizaos/core\<close>; the repository holds the call and the
  configuration passed to \<^verbatim>\<open>super\<close>, not the breaker's code.
\<close>

datatype circuit_state = CLOSED | OPEN | HALF_OPEN

record breaker =
  circuitState :: circuit_state
  failureCount :: nat          \<comment> \<open>consecutive failures\<close>
  lastTransition :: real       \<comment> \<open>timestamp of the last transition to OPEN\<close>
  halfOpenTrials :: nat        \<comment> \<open>trial calls made while HALF_OPEN\<close>

record breaker_settings =
  failureThreshold :: nat
  resetTimeout :: real
  halfOpenMaxAttempts :: nat

text \<open>The object literal the constructor passes to \<^verbatim>\<open>super\<close>.\<close>

definition glacier_breaker_settings :: breaker_settings where
  "glacier_breaker_settings =
     \<lparr>failureThreshold = 5, resetTimeout = 60000, halfOpenMaxAttempts = 3\<rparr>"

definition closed_breaker :: breaker where
  "closed_breaker =
     \<lparr>circuitState = CLOSED, failureCount = 0, lastTransition = 0, halfOpenTrials = 0\<rparr>"

text \<open>What a caller of the executor can be handed instead of a result.\<close>

datatype failure =
    CircuitOpenError     \<comment> \<open>raised by the breaker itself\<close>
  | Raised thrown        \<comment> \<open>the failure of the wrapped operation, propagated\<close>

text \<open>
  Modelled from the spec: the breaker of \<^verbatim>\<open>@elizaos/core\<close> (class behind
  \<^verbatim>\<open>withCircuitBreaker\<close>), absent from the repository. Section 4.1, the gate:
  OPEN fails at once while less than \<open>resetTimeout\<close> has elapsed since the transition,
  and otherwise becomes HALF_OPEN (a fresh round of trials) and lets the call through;
  CLOSED and HALF_OPEN let the call through.
\<close>

definition admit :: "breaker_settings \<Rightarrow> real \<Rightarrow> breaker \<Rightarrow> breaker option" where
  "admit cfg now b =
     (case circuitState b of
        OPEN \<Rightarrow>
          (if now - lastTransition b < resetTimeout cfg then None
           else Some (b\<lparr>circuitState := HALF_OPEN, halfOpenTrials := 0\<rparr>))
      | CLOSED \<Rightarrow> Some b
      | HALF_OPEN \<Rightarrow> Some b)"

text \<open>
  Modelled from the spec: the breaker of \<^verbatim>\<open>@elizaos/core\<close>, absent from the
  repository. Sections 3 and 4.1, a successful completion: the failure count resets to
  zero; in HALF_OPEN the call counts as a trial, and the breaker closes when the count
  reaches \<open>halfOpenMaxAttempts\<close>.
\<close>

definition onSuccess :: "breaker_settings \<Rightarrow> breaker \<Rightarrow> breaker" where
  "onSuccess cfg b =
     (case circuitState b of
        HALF_OPEN \<Rightarrow>
          (if halfOpenMaxAttempts cfg \<le> Suc (halfOpenTrials b)
           then b\<lparr>circuitState := CLOSED, failureCount := 0, halfOpenTrials := Suc (halfOpenTrials b)\<rparr>
           else b\<lparr>failureCount := 0, halfOpenTrials := Suc (halfOpenTrials b)\<rparr>)
      | CLOSED \<Rightarrow> b\<lparr>failureCount := 0\<rparr>
      | OPEN \<Rightarrow> b\<lparr>failureCount := 0\<rparr>)"

text \<open>
  Modelled from the spec: the breaker of \<^verbatim>\<open>@elizaos/core\<close>, absent from the
  repository. Section 4.1, a failure at time \<open>now\<close>: CLOSED increments the failure
  count and opens when it has reached \<open>failureThreshold\<close>, recording the time;
  HALF_OPEN opens at once and restarts the timer. (OPEN never runs an operation.)
\<close>

definition onFailure :: "breaker_settings \<Rightarrow> real \<Rightarrow> breaker \<Rightarrow> breaker" where
  "onFailure cfg now b =
     (case circuitState b of
        CLOSED \<Rightarrow>
          (if failureThreshold cfg \<le> Suc (failureCount b)
           then b\<lparr>circuitState := OPEN, failureCount := Suc (failureCount b), lastTransition := now\<rparr>
           else b\<lparr>failureCount := Suc (failureCount b)\<rparr>)
      | HALF_OPEN \<Rightarrow>
          b\<lparr>circuitState := OPEN, lastTransition := now, halfOpenTrials := Suc (halfOpenTrials b)\<rparr>
      | OPEN \<Rightarrow> b)"

text \<open>
  Modelled from the spec: \<^verbatim>\<open>execute(operation)\<close> of the breaker of \<^verbatim>\<open>@elizaos/core\<close>,
  absent from the repository. Section 4.1: the gate, then the operation, then the
  outcome recorded; the operation's own failure is propagated as it is.
\<close>

definition execute ::
  "breaker_settings \<Rightarrow> ('w, 'a) action \<Rightarrow> breaker \<times> 'w runtime
     \<Rightarrow> (failure + 'a) \<times> breaker \<times> 'w runtime" where
  "execute cfg act bs =
     (case bs of (b, s) \<Rightarrow>
        (case admit cfg (clock s) b of
           None \<Rightarrow> (Inl CircuitOpenError, b, s)
         | Some b1 \<Rightarrow>
             (case act s of
                (Inr result, s') \<Rightarrow> (Inr result, onSuccess cfg b1, s')
              | (Inl error, s') \<Rightarrow> (Inl (Raised error), onFailure cfg (clock s') b1, s'))))"

text \<open>
  Modelled from the spec: \<^verbatim>\<open>withCircuitBreaker(operation, context)\<close> of the base class,
  absent from the repository. Section 4.3: it is the breaker's \<^verbatim>\<open>execute\<close>, and the
  context label is a diagnostic tag that changes nothing.
\<close>

definition withCircuitBreaker ::
  "breaker_settings \<Rightarrow> ('w, 'a) action \<Rightarrow> string \<Rightarrow> breaker \<times> 'w runtime
     \<Rightarrow> (failure + 'a) \<times> breaker \<times> 'w runtime" where
  "withCircuitBreaker cfg act context = execute cfg act"

section \<open>The composed executor\<close>

record adapter =
  retry :: retry_settings
  circuit :: breaker_settings

definition GlacierDBDatabaseAdapter :: adapter where
  "GlacierDBDatabaseAdapter = \<lparr>retry = glacier_settings, circuit = glacier_breaker_settings\<rparr>"

text \<open>
  \<^verbatim>\<open>return this.withCircuitBreaker(async () => { return this.withRetry(operation); }, context);\<close>
\<close>

definition withDatabase ::
  "adapter \<Rightarrow> ('w, 'a) operation \<Rightarrow> string \<Rightarrow> breaker \<times> 'w runtime
     \<Rightarrow> (failure + 'a) \<times> breaker \<times> 'w runtime" where
  "withDatabase this operation context =
     withCircuitBreaker (circuit this) (withRetry (retry this) operation) context"

text \<open>The breaker called \<open>n\<close> times in a row with the same action.\<close>

fun executeTimes ::
  "nat \<Rightarrow> breaker_settings \<Rightarrow> ('w, 'a) action \<Rightarrow> breaker \<times> 'w runtime \<Rightarrow> breaker \<times> 'w runtime" where
  "executeTimes 0 cfg act bs = bs"
| "executeTimes (Suc n) cfg act bs = snd (execute cfg act (executeTimes n cfg act bs))"

section \<open>Two methods of the adapter\<close>

subsection \<open>\<^verbatim>\<open>getMemories\<close>\<close>

record getMemories_params =
  roomId :: string
  count :: "int option"
  unique :: "bool option"
  tableName :: string
  agentId :: "string option"
  start :: "int option"
  end' :: "int option"

text \<open>The filter object \<^verbatim>\<open>query\<close> built by \<^verbatim>\<open>getMemories\<close>.\<close>

record memory_query =
  q_type :: string
  q_roomId :: string
  q_createdAt_gte :: "int option"
  q_createdAt_lte :: "int option"
  q_unique :: bool
  q_agentId :: "string option"

text \<open>
  What reaches the client through \<^verbatim>\<open>collection(c).find(q).sort(o).limit(n).toArray()\<close>;
  \<open>None\<close> is \<^verbatim>\<open>undefined\<close>.
\<close>

record cursor =
  collection :: string
  filter :: memory_query
  sortBy :: "(string \<times> int) option"
  limit :: "int option"

text \<open>A stored memory: its \<^verbatim>\<open>content\<close> is a JSON text or an object already.\<close>

datatype 'j content = Text string | Object 'j

record 'j memory =
  memoryId :: string
  content :: "'j content"

text \<open>The client of the remote store, an external collaborator: \<^verbatim>\<open>toArray\<close> on a cursor.\<close>

type_synonym ('w, 'j) store_client = "cursor \<Rightarrow> ('w, 'j memory list) operation"

text \<open>
  \<^verbatim>\<open>if (params.start)\<close>, \<^verbatim>\<open>if (params.agentId)\<close>, \<^verbatim>\<open>if (params.unique)\<close>: JavaScript truthiness
  of an optional number, string, boolean.
\<close>

definition truthyNumber :: "int option \<Rightarrow> bool" where
  "truthyNumber n = (case n of None \<Rightarrow> False | Some k \<Rightarrow> k \<noteq> 0)"

definition truthyString :: "string option \<Rightarrow> bool" where
  "truthyString x = (case x of None \<Rightarrow> False | Some str \<Rightarrow> str \<noteq> [])"

definition truthyBool :: "bool option \<Rightarrow> bool" where
  "truthyBool x = (case x of None \<Rightarrow> False | Some b \<Rightarrow> b)"

definition getMemories_query :: "getMemories_params \<Rightarrow> memory_query" where
  "getMemories_query params =
     \<lparr>q_type = tableName params,
      q_roomId = roomId params,
      q_createdAt_gte = (if truthyNumber (start params) then start params else None),
      q_createdAt_lte = (if truthyNumber (end' params) then end' params else None),
      q_unique = truthyBool (unique params),
      q_agentId = (if truthyString (agentId params) then agentId params else None)\<rparr>"

text \<open>\<^verbatim>\<open>if (params.count > 20) { params.count = 20; }\<close>, then \<^verbatim>\<open>.limit(params.count)\<close>\<close>

definition getMemories_limit :: "getMemories_params \<Rightarrow> int option" where
  "getMemories_limit params =
     (case count params of
        None \<Rightarrow> None
      | Some n \<Rightarrow> if n > 20 then Some 20 else Some n)"

definition getMemories_cursor :: "getMemories_params \<Rightarrow> cursor" where
  "getMemories_cursor params =
     \<lparr>collection = ''memories'',
      filter = getMemories_query params,
      sortBy = Some (''createdAt'', - 1),
      limit = getMemories_limit params\<rparr>"

text \<open>
  \<^verbatim>\<open>memories.map((memory) => ({...memory, content: typeof memory.content === "string" ?
  JSON.parse(memory.content) : memory.content}))\<close>; \<^verbatim>\<open>JSON.parse\<close> throws on a malformed
  text, and the first throw ends the map.
\<close>

fun parseContents :: "(string \<Rightarrow> thrown + 'j) \<Rightarrow> 'j memory list \<Rightarrow> thrown + 'j memory list" where
  "parseContents JSON_parse [] = Inr []"
| "parseContents JSON_parse (m # ms) =
     (case content m of
        Text str \<Rightarrow>
          (case JSON_parse str of
             Inl e \<Rightarrow> Inl e
           | Inr j \<Rightarrow>
               (case parseContents JSON_parse ms of
                  Inl e \<Rightarrow> Inl e
                | Inr ms' \<Rightarrow> Inr (m\<lparr>content := Object j\<rparr> # ms')))
      | Object j \<Rightarrow>
          (case parseContents JSON_parse ms of
             Inl e \<Rightarrow> Inl e
           | Inr ms' \<Rightarrow> Inr (m # ms')))"

text \<open>The closure handed to \<^verbatim>\<open>withDatabase\<close>.\<close>

definition getMemories_operation ::
  "('w, 'j) store_client \<Rightarrow> (string \<Rightarrow> thrown + 'j) \<Rightarrow> getMemories_params
     \<Rightarrow> ('w, 'j memory list) operation" where
  "getMemories_operation toArray JSON_parse params w =
     (case toArray (getMemories_cursor params) w of
        (Inl e, w') \<Rightarrow> (Inl e, w')
      | (Inr memories, w') \<Rightarrow> (parseContents JSON_parse memories, w'))"

definition getMemories ::
  "adapter \<Rightarrow> ('w, 'j) store_client \<Rightarrow> (string \<Rightarrow> thrown + 'j) \<Rightarrow> getMemories_params
     \<Rightarrow> breaker \<times> 'w runtime \<Rightarrow> (failure + 'j memory list) \<times> breaker \<times> 'w runtime" where
  "getMemories this toArray JSON_parse params bs =
     (if tableName params = [] then (Inl (Raised (ErrorObject ''tableName is required'')), bs)
      else if roomId params = [] then (Inl (Raised (ErrorObject ''roomId is required'')), bs)
      else withDatabase this (getMemories_operation toArray JSON_parse params) ''getMemories'' bs)"

subsection \<open>\<^verbatim>\<open>getCachedEmbeddings\<close>\<close>

record cachedEmbeddings_opts =
  query_table_name :: string
  query_threshold :: real
  query_input :: string
  query_field_name :: string
  query_field_sub_name :: string
  query_match_count :: int

record cached_embedding =
  embedding :: "real list"
  levenshtein_score :: real

text \<open>\<^verbatim>\<open>return [];\<close>\<close>

definition getCachedEmbeddings ::
  "adapter \<Rightarrow> cachedEmbeddings_opts \<Rightarrow> breaker \<times> 'w runtime
     \<Rightarrow> (failure + cached_embedding list) \<times> breaker \<times> 'w runtime" where
  "getCachedEmbeddings this opts bs = (Inr [], bs)"

section \<open>Example operations\<close>

text \<open>
  A store that is down for its first \<open>n\<close> calls and answers afterwards with the number of
  the call; its state counts the calls made.
\<close>

definition downFor :: "nat \<Rightarrow> (nat, nat) operation" where
  "downFor n w = (if w < n then Inl (ErrorObject ''down'') else Inr (Suc w), Suc w)"

definition alwaysDown :: "(nat, nat) operation" where
  "alwaysDown w = (Inl (ErrorObject ''down''), Suc w)"

definition runtime0 :: "nat runtime" where
  "runtime0 = \<lparr>world = 0, clock = 0, entropy = (\<lambda>i. 1 / 2), drawn = 0, sleeps = [], logged = []\<rparr>"

definition alwaysThrowsText :: "(nat, nat) operation" where
  "alwaysThrowsText w = (Inl (NonError ''timeout''), Suc w)"

text \<open>The same runtime when every draw is \<open>1 - 2 ^ -52\<close>, a double below 1.\<close>

definition edgeRuntime :: "nat runtime" where
  "edgeRuntime = runtime0\<lparr>entropy := (\<lambda>i. 1 - 1 / 2 ^ 52)\<rparr>"

definition alwaysUp :: "(nat, nat) operation" where
  "alwaysUp w = (Inr (Suc w), Suc w)"

text \<open>A store of memories that answers a cursor with its first rows, up to the limit.\<close>

definition firstRows :: "(nat memory list, nat) store_client" where
  "firstRows c w =
     (case limit c of
        None \<Rightarrow> (Inr w, w)
      | Some n \<Rightarrow> if n < 0 then (Inl (ErrorObject ''bad limit''), w) else (Inr (take (nat n) w), w))"

text \<open>The same store, refusing every cursor whose limit is not 20.\<close>

definition twentyOnly :: "(nat memory list, nat) store_client" where
  "twentyOnly c w =
     (if limit c = Some 20 then firstRows c w else (Inl (ErrorObject ''unexpected limit''), w))"

definition thirtyRows :: "nat memory list" where
  "thirtyRows = replicate 30 \<lparr>memoryId = ''m'', content = Object 0\<rparr>"

definition someParams :: getMemories_params where
  "someParams =
     \<lparr>roomId = ''room'', count = Some 50, unique = None, tableName = ''messages'',
      agentId = None, start = None, end' = None\<rparr>"

text \<open>A store of thirty memories behind a closed breaker, and a stand-in for \<^verbatim>\<open>JSON.parse\<close>.\<close>

definition memoryRuntime :: "nat memory list runtime" where
  "memoryRuntime =
     \<lparr>world = thirtyRows, clock = 0, entropy = (\<lambda>i. 1 / 2), drawn = 0, sleeps = [], logged = []\<rparr>"

definition parseLength :: "string \<Rightarrow> thrown + nat" where
  "parseLength str = Inr (length str)"

text \<open>A breaker that opened at time 1000 after five failures.\<close>

definition tripped_breaker :: breaker where
  "tripped_breaker =
     \<lparr>circuitState = OPEN, failureCount = 5, lastTransition = 1000, halfOpenTrials = 0\<rparr>"

text \<open>Actions that fail, or succeed, in every runtime, and leave a mark on the store.\<close>

definition failingCall :: "(nat, nat) action" where
  "failingCall s = (Inl (ErrorObject ''down''), s\<lparr>world := Suc (world s)\<rparr>)"

definition succeedingCall :: "(nat, nat) action" where
  "succeedingCall s = (Inr (Suc (world s)), s\<lparr>world := Suc (world s)\<rparr>)"

section \<open>The examples, evaluated\<close>

lemma runtime0_simps [simp]:
  "world runtime0 = 0" "clock runtime0 = 0" "entropy runtime0 i = 1 / 2" "drawn runtime0 = 0"
  "sleeps runtime0 = []" "logged runtime0 = []"
  by (simp_all add: runtime0_def)

lemma glacier_settings_simps [simp]:
  "maxRetries glacier_settings = 3" "baseDelay glacier_settings = 1000"
  "maxDelay glacier_settings = 10000" "jitterMax glacier_settings = 1000"
  by (simp_all add: glacier_settings_def)

lemma glacier_breaker_settings_simps [simp]:
  "failureThreshold glacier_breaker_settings = 5" "resetTimeout glacier_breaker_settings = 60000"
  "halfOpenMaxAttempts glacier_breaker_settings = 3"
  by (simp_all add: glacier_breaker_settings_def)

lemma GlacierDBDatabaseAdapter_simps [simp]:
  "retry GlacierDBDatabaseAdapter = glacier_settings"
  "circuit GlacierDBDatabaseAdapter = glacier_breaker_settings"
  by (simp_all add: GlacierDBDatabaseAdapter_def)

lemma closed_breaker_simps [simp]:
  "circuitState closed_breaker = CLOSED" "failureCount closed_breaker = 0"
  "lastTransition closed_breaker = 0" "halfOpenTrials closed_breaker = 0"
  by (simp_all add: closed_breaker_def)

lemma tripped_breaker_simps [simp]:
  "circuitState tripped_breaker = OPEN" "failureCount tripped_breaker = 5"
  "lastTransition tripped_breaker = 1000" "halfOpenTrials tripped_breaker = 0"
  by (simp_all add: tripped_breaker_def)

lemma alwaysDown_fst [simp]: "fst (alwaysDown w) = Inl (ErrorObject ''down'')"
  by (simp add: alwaysDown_def)

lemma alwaysDown_snd [simp]: "snd (alwaysDown w) = Suc w"
  by (simp add: alwaysDown_def)

lemma worldAfter_alwaysDown [simp]: "worldAfter alwaysDown k w = w + k"
  by (induction k arbitrary: w) simp_all

lemma alwaysThrowsText_simps [simp]:
  "fst (alwaysThrowsText w) = Inl (NonError ''timeout'')" "snd (alwaysThrowsText w) = Suc w"
  by (simp_all add: alwaysThrowsText_def)

lemma worldAfter_downFor [simp]: "worldAfter (downFor n) k w = w + k"
  by (induction k arbitrary: w) (simp_all add: downFor_def)

lemma alwaysUp_eq [simp]: "alwaysUp w = (Inr (Suc w), Suc w)"
  by (simp add: alwaysUp_def)

lemma failingCall_simps [simp]:
  "fst (failingCall s) = Inl (ErrorObject ''down'')" "snd (failingCall s) = s\<lparr>world := Suc (world s)\<rparr>"
  by (simp_all add: failingCall_def)

lemma succeedingCall_simps [simp]:
  "fst (succeedingCall s) = Inr (Suc (world s))" "snd (succeedingCall s) = s\<lparr>world := Suc (world s)\<rparr>"
  by (simp_all add: succeedingCall_def)

section \<open>Facts about rounding\<close>

lemma scale_pos: "0 < subnormalScale"
  by (simp add: subnormalScale_def)

lemma rte_ge: "of_int n \<le> y \<Longrightarrow> n \<le> roundTiesToEven y"
proof -
  assume "of_int n \<le> y"
  then have "n \<le> \<lfloor>y\<rfloor>" by (simp add: le_floor_iff)
  then show ?thesis by (auto simp: roundTiesToEven_def Let_def)
qed

lemma rte_le: "y \<le> of_int n \<Longrightarrow> roundTiesToEven y \<le> n"
proof -
  assume a: "y \<le> of_int n"
  show ?thesis
  proof (cases "y = of_int n")
    case True
    then show ?thesis by (simp add: roundTiesToEven_def)
  next
    case False
    with a have "y < of_int n" by simp
    then have "\<lfloor>y\<rfloor> < n" by (simp add: floor_less_iff)
    then show ?thesis by (auto simp: roundTiesToEven_def Let_def)
  qed
qed

lemma rte_of_int [simp]: "roundTiesToEven (of_int n) = n"
  by (simp add: roundTiesToEven_def)

lemma rte_below_half: "y < of_int n - 1 / 2 \<Longrightarrow> roundTiesToEven y < n"
proof -
  assume a: "y < of_int n - 1 / 2"
  then have "y < of_int n" by simp
  then have f: "\<lfloor>y\<rfloor> < n" by (simp add: floor_less_iff)
  show ?thesis
  proof (cases "\<lfloor>y\<rfloor> = n - 1")
    case True
    then have "of_int \<lfloor>y\<rfloor> = (of_int n :: real) - 1" by simp
    with a have "y - of_int \<lfloor>y\<rfloor> < 1 / 2" by simp
    with True show ?thesis by (simp add: roundTiesToEven_def Let_def)
  next
    case False
    with f have "\<lfloor>y\<rfloor> + 1 < n" by simp
    then show ?thesis by (auto simp: roundTiesToEven_def Let_def)
  qed
qed

lemma rte_near: "of_int n - 1 / 2 < y \<Longrightarrow> y < of_int n + 1 / 2 \<Longrightarrow> roundTiesToEven y = n"
proof -
  assume a: "of_int n - 1 / 2 < y" and b: "y < of_int n + 1 / 2"
  show ?thesis
  proof (cases "of_int n \<le> y")
    case True
    with b have "\<lfloor>y\<rfloor> = n" by (intro floor_unique) simp_all
    with b show ?thesis by (simp add: roundTiesToEven_def Let_def)
  next
    case False
    with a have "\<lfloor>y\<rfloor> = n - 1" by (intro floor_unique) simp_all
    with a show ?thesis by (simp add: roundTiesToEven_def Let_def)
  qed
qed

lemma rte_tie_odd: "y = of_int n + 1 / 2 \<Longrightarrow> odd n \<Longrightarrow> roundTiesToEven y = n + 1"
proof -
  assume a: "y = of_int n + 1 / 2" and o: "odd n"
  then have "\<lfloor>y\<rfloor> = n" by (intro floor_unique) simp_all
  with a o show ?thesis by (simp add: roundTiesToEven_def Let_def)
qed

lemma nat_int_53: "nat (int t + 53) = t + 53"
  by (simp add: nat_add_distrib)

lemma shift_upper: "\<bar>x\<bar> * subnormalScale < 2 ^ (ulpShift x + 53)"
proof -
  let ?n = "\<lfloor>\<bar>x\<bar> * subnormalScale\<rfloor>"
  have "bitlen ?n \<le> int (ulpShift x + 53)" by (simp add: ulpShift_def)
  then have "?n < 2 ^ (ulpShift x + 53)" by (simp add: bitlen_le_iff_power nat_int_53)
  then have "?n + 1 \<le> 2 ^ (ulpShift x + 53)" by simp
  then have "(of_int (?n + 1) :: real) \<le> of_int (2 ^ (ulpShift x + 53))" by (simp only: of_int_le_iff)
  then have "(of_int ?n :: real) + 1 \<le> 2 ^ (ulpShift x + 53)" by simp
  moreover have "\<bar>x\<bar> * subnormalScale < of_int ?n + 1" by linarith
  ultimately show ?thesis by linarith
qed

lemma shift_lower: "0 < ulpShift x \<Longrightarrow> 2 ^ (ulpShift x + 52) \<le> \<bar>x\<bar> * subnormalScale"
proof -
  assume p: "0 < ulpShift x"
  let ?n = "\<lfloor>\<bar>x\<bar> * subnormalScale\<rfloor>"
  from p have "int (ulpShift x + 53) \<le> bitlen ?n" by (simp add: ulpShift_def)
  then have "2 ^ (nat (int (ulpShift x + 53)) - 1) \<le> ?n"
    unfolding bitlen_ge_iff_power by simp
  moreover have "nat (int (ulpShift x + 53)) - 1 = ulpShift x + 52" by simp
  ultimately have "(2::int) ^ (ulpShift x + 52) \<le> ?n" by (simp only:)
  then have "(of_int (2 ^ (ulpShift x + 52)) :: real) \<le> of_int ?n" by (simp only: of_int_le_iff)
  also have "\<dots> \<le> \<bar>x\<bar> * subnormalScale" by simp
  finally show ?thesis by simp
qed

lemma shift_eq:
  assumes "2 ^ (t + 52) \<le> \<bar>x\<bar> * subnormalScale" and "\<bar>x\<bar> * subnormalScale < 2 ^ (t + 53)"
  shows "ulpShift x = t"
proof -
  let ?n = "\<lfloor>\<bar>x\<bar> * subnormalScale\<rfloor>"
  from assms(1) have "(of_int (2 ^ (t + 52)) :: real) \<le> \<bar>x\<bar> * subnormalScale" by simp
  then have lo: "2 ^ (t + 52) \<le> ?n" by (simp only: le_floor_iff)
  from assms(2) have "\<bar>x\<bar> * subnormalScale < (of_int (2 ^ (t + 53)) :: real)" by simp
  then have hi: "?n < 2 ^ (t + 53)" by (simp only: floor_less_iff)
  have e: "nat (int (t + 53)) - 1 = t + 52" "nat (int (t + 53)) = t + 53" by simp_all
  from hi have "bitlen ?n \<le> int (t + 53)" unfolding bitlen_le_iff_power e by simp
  moreover from lo have "int (t + 53) \<le> bitlen ?n" unfolding bitlen_ge_iff_power e by (simp add: add.commute)
  ultimately have "bitlen ?n = int (t + 53)" by simp
  then show ?thesis by (simp add: ulpShift_def)
qed


lemma round_nonneg: "0 \<le> x \<Longrightarrow> 0 \<le> roundDouble x"
proof -
  assume "0 \<le> x"
  then have "of_int 0 \<le> x * subnormalScale / 2 ^ ulpShift x" using scale_pos by simp
  then have "0 \<le> roundTiesToEven (x * subnormalScale / 2 ^ ulpShift x)" by (rule rte_ge)
  then show ?thesis using scale_pos by (simp add: roundDouble_def)
qed

lemma shift_mono:
  assumes "0 \<le> x" and "x \<le> c"
  shows "ulpShift x \<le> ulpShift c"
proof (rule ccontr)
  assume "\<not> ulpShift x \<le> ulpShift c"
  then have gt: "ulpShift c < ulpShift x" by simp
  then have "0 < ulpShift x" by simp
  then have "2 ^ (ulpShift x + 52) \<le> \<bar>x\<bar> * subnormalScale" by (rule shift_lower)
  also have "\<dots> \<le> \<bar>c\<bar> * subnormalScale" using assms scale_pos by simp
  also have "\<dots> < 2 ^ (ulpShift c + 53)" by (rule shift_upper)
  also have "\<dots> \<le> 2 ^ (ulpShift x + 52)" using gt by (intro power_increasing) simp_all
  finally show False by simp
qed

lemma round_le_representable:
  assumes "0 \<le> x" and "x \<le> c" and rep: "c * subnormalScale / 2 ^ ulpShift c = of_int m"
  shows "roundDouble x \<le> c"
proof -
  let ?S = subnormalScale
  from assms have c0: "0 \<le> c" by simp
  from rep have c: "c = of_int m * 2 ^ ulpShift c / ?S" using scale_pos by (simp add: field_simps)
  have le: "ulpShift x \<le> ulpShift c" using assms(1,2) by (rule shift_mono)
  show ?thesis
  proof (cases "ulpShift x = ulpShift c")
    case True
    have "x * ?S / 2 ^ ulpShift c \<le> c * ?S / 2 ^ ulpShift c"
      using assms(2) scale_pos by (simp add: divide_right_mono)
    with rep True have "x * ?S / 2 ^ ulpShift x \<le> of_int m" by simp
    then have "roundTiesToEven (x * ?S / 2 ^ ulpShift x) \<le> m" by (rule rte_le)
    then have "(of_int (roundTiesToEven (x * ?S / 2 ^ ulpShift x)) :: real) \<le> of_int m" by simp
    then have "of_int (roundTiesToEven (x * ?S / 2 ^ ulpShift x)) * 2 ^ ulpShift x / ?S
                 \<le> of_int m * 2 ^ ulpShift x / ?S"
      using scale_pos by (simp add: divide_right_mono mult_right_mono)
    with True c show ?thesis by (simp add: roundDouble_def)
  next
    case False
    with le have lt: "ulpShift x < ulpShift c" by simp
    have "\<bar>x\<bar> * ?S < 2 ^ (ulpShift x + 53)" by (rule shift_upper)
    with assms(1) have "x * ?S / 2 ^ ulpShift x < 2 ^ 53"
      by (simp add: power_add field_simps)
    then have "x * ?S / 2 ^ ulpShift x \<le> of_int (2 ^ 53)" by simp
    then have "roundTiesToEven (x * ?S / 2 ^ ulpShift x) \<le> 2 ^ 53" by (rule rte_le)
    then have "(of_int (roundTiesToEven (x * ?S / 2 ^ ulpShift x)) :: real) \<le> of_int (2 ^ 53)"
      by (simp only: of_int_le_iff)
    then have "of_int (roundTiesToEven (x * ?S / 2 ^ ulpShift x)) * 2 ^ ulpShift x
                 \<le> (2 ^ 53 :: real) * 2 ^ ulpShift x"
      by (intro mult_right_mono) simp_all
    also have "\<dots> = 2 ^ (ulpShift x + 53)" by (simp add: power_add)
    also have "\<dots> \<le> 2 ^ (ulpShift c + 52)" using lt by (intro power_increasing) simp_all
    also have "\<dots> \<le> \<bar>c\<bar> * ?S" using lt by (intro shift_lower) simp
    finally have "of_int (roundTiesToEven (x * ?S / 2 ^ ulpShift x)) * 2 ^ ulpShift x \<le> c * ?S"
      using c0 by simp
    then show ?thesis using scale_pos by (simp add: roundDouble_def field_simps)
  qed
qed

lemma round_ge_representable:
  assumes "0 \<le> a" and "a \<le> x" and rep: "a * subnormalScale / 2 ^ ulpShift a = of_int m"
  shows "a \<le> roundDouble x"
proof -
  let ?S = subnormalScale
  from assms have x0: "0 \<le> x" by simp
  from rep have a: "a = of_int m * 2 ^ ulpShift a / ?S" using scale_pos by (simp add: field_simps)
  have le: "ulpShift a \<le> ulpShift x" using assms(1,2) by (rule shift_mono)
  show ?thesis
  proof (cases "ulpShift a = ulpShift x")
    case True
    have "a * ?S / 2 ^ ulpShift a \<le> x * ?S / 2 ^ ulpShift a"
      using assms(2) scale_pos by (simp add: divide_right_mono)
    with rep True have "of_int m \<le> x * ?S / 2 ^ ulpShift x" by simp
    then have "m \<le> roundTiesToEven (x * ?S / 2 ^ ulpShift x)" by (rule rte_ge)
    then have "(of_int m :: real) \<le> of_int (roundTiesToEven (x * ?S / 2 ^ ulpShift x))" by simp
    then have "of_int m * 2 ^ ulpShift x / ?S
                 \<le> of_int (roundTiesToEven (x * ?S / 2 ^ ulpShift x)) * 2 ^ ulpShift x / ?S"
      using scale_pos by (simp add: divide_right_mono mult_right_mono)
    with True a show ?thesis by (simp add: roundDouble_def)
  next
    case False
    with le have lt: "ulpShift a < ulpShift x" by simp
    have "\<bar>a\<bar> * ?S < 2 ^ (ulpShift a + 53)" by (rule shift_upper)
    also have "\<dots> \<le> 2 ^ (ulpShift x + 52)" using lt by (intro power_increasing) simp_all
    finally have a_lt: "a * ?S < 2 ^ (ulpShift x + 52)" using assms(1) by simp
    have "2 ^ (ulpShift x + 52) \<le> \<bar>x\<bar> * ?S" using lt by (intro shift_lower) simp
    with x0 have "of_int (2 ^ 52) \<le> x * ?S / 2 ^ ulpShift x"
      by (simp add: power_add field_simps)
    then have "2 ^ 52 \<le> roundTiesToEven (x * ?S / 2 ^ ulpShift x)" by (rule rte_ge)
    then have "(of_int (2 ^ 52) :: real) \<le> of_int (roundTiesToEven (x * ?S / 2 ^ ulpShift x))"
      by (simp only: of_int_le_iff)
    then have "(2 ^ 52 :: real) * 2 ^ ulpShift x
                 \<le> of_int (roundTiesToEven (x * ?S / 2 ^ ulpShift x)) * 2 ^ ulpShift x"
      by (intro mult_right_mono) simp_all
    then have "(2::real) ^ (ulpShift x + 52)
                 \<le> of_int (roundTiesToEven (x * ?S / 2 ^ ulpShift x)) * 2 ^ ulpShift x"
      by (simp only: power_add mult.commute)
    with a_lt have "a * ?S \<le> of_int (roundTiesToEven (x * ?S / 2 ^ ulpShift x)) * 2 ^ ulpShift x"
      by linarith
    then show ?thesis using scale_pos by (simp add: roundDouble_def field_simps)
  qed
qed

lemma scale_split: "k \<le> 52 \<Longrightarrow> subnormalScale = 2 ^ (52 - k) * 2 ^ (k + 1022)"
proof -
  assume "k \<le> 52"
  then have "(52 - k) + (k + 1022) = 1074" by simp
  then have "(2::real) ^ ((52 - k) + (k + 1022)) = 2 ^ 1074" by (simp only:)
  then show ?thesis unfolding subnormalScale_def by (simp only: power_add)
qed

lemma shift_in_binade:
  assumes "2 ^ k \<le> \<bar>x\<bar>" and "\<bar>x\<bar> < 2 ^ (k + 1)" and "k \<le> 52"
  shows "ulpShift x = k + 1022"
proof (rule shift_eq)
  have s: "subnormalScale = 2 ^ 1074" by (simp only: subnormalScale_def)
  have "(2::real) ^ (k + 1022 + 52) = 2 ^ k * 2 ^ 1074" by (simp only: power_add [symmetric]) simp
  also have "\<dots> \<le> \<bar>x\<bar> * 2 ^ 1074" using assms(1) by (intro mult_right_mono) simp_all
  finally show "2 ^ (k + 1022 + 52) \<le> \<bar>x\<bar> * subnormalScale" by (simp only: s)
  have "\<bar>x\<bar> * 2 ^ 1074 < 2 ^ (k + 1) * (2::real) ^ 1074" using assms(2) by (intro mult_strict_right_mono) simp_all
  also have "\<dots> = 2 ^ (k + 1022 + 53)" by (simp only: power_add [symmetric]) simp
  finally show "\<bar>x\<bar> * subnormalScale < 2 ^ (k + 1022 + 53)" by (simp only: s)
qed

lemma round_in_binade:
  assumes "2 ^ k \<le> \<bar>x\<bar>" and "\<bar>x\<bar> < 2 ^ (k + 1)" and "k \<le> 52"
  shows "roundDouble x = of_int (roundTiesToEven (x * 2 ^ (52 - k))) / 2 ^ (52 - k)"
proof -
  have t: "ulpShift x = k + 1022" using assms by (rule shift_in_binade)
  have s: "subnormalScale = 2 ^ (52 - k) * 2 ^ (k + 1022)" using assms(3) by (rule scale_split)
  have "x * subnormalScale / 2 ^ (k + 1022) = x * 2 ^ (52 - k)" unfolding s by simp
  moreover have "(2::real) ^ (k + 1022) / subnormalScale = 1 / 2 ^ (52 - k)" unfolding s by simp
  ultimately show ?thesis unfolding roundDouble_def t
    by (metis times_divide_eq_right mult.right_neutral)
qed

lemma representable_in_binade:
  assumes "2 ^ k \<le> \<bar>c\<bar>" and "\<bar>c\<bar> < 2 ^ (k + 1)" and "k \<le> 52" and "c * 2 ^ (52 - k) = of_int m"
  shows "c * subnormalScale / 2 ^ ulpShift c = of_int m"
proof -
  have t: "ulpShift c = k + 1022" using assms(1-3) by (rule shift_in_binade)
  have s: "subnormalScale = 2 ^ (52 - k) * 2 ^ (k + 1022)" using assms(3) by (rule scale_split)
  have "c * subnormalScale / 2 ^ (k + 1022) = c * 2 ^ (52 - k)" unfolding s by simp
  with assms(4) t show ?thesis by simp
qed


lemma round_exact_in_binade:
  assumes "2 ^ k \<le> \<bar>c\<bar>" and "\<bar>c\<bar> < 2 ^ (k + 1)" and "k \<le> 52" and "c * 2 ^ (52 - k) = of_int m"
  shows "roundDouble c = c"
proof -
  have "roundDouble c = of_int (roundTiesToEven (c * 2 ^ (52 - k))) / 2 ^ (52 - k)"
    using assms(1-3) by (rule round_in_binade)
  also have "\<dots> = of_int m / 2 ^ (52 - k)" unfolding assms(4) by simp
  also have "\<dots> = c" unfolding assms(4) [symmetric] by simp
  finally show ?thesis .
qed

lemma rep_512: "512 * subnormalScale / 2 ^ ulpShift 512 = of_int (2 ^ 52)"
  by (rule representable_in_binade [where k = 9]) simp_all

lemma rep_1000: "1000 * subnormalScale / 2 ^ ulpShift 1000 = of_int (1000 * 2 ^ 43)"
  by (rule representable_in_binade [where k = 9]) simp_all

lemma rep_2000: "2000 * subnormalScale / 2 ^ ulpShift 2000 = of_int (2000 * 2 ^ 42)"
  by (rule representable_in_binade [where k = 10]) simp_all

lemma rep_3000: "3000 * subnormalScale / 2 ^ ulpShift 3000 = of_int (3000 * 2 ^ 41)"
  by (rule representable_in_binade [where k = 11]) simp_all

lemma round_1000 [simp]: "roundDouble 1000 = 1000"
  by (rule round_exact_in_binade [where k = 9 and m = "1000 * 2 ^ 43"]) simp_all

lemma round_2000 [simp]: "roundDouble 2000 = 2000"
  by (rule round_exact_in_binade [where k = 10 and m = "2000 * 2 ^ 42"]) simp_all

lemma round_500: "roundDouble 500 = 500"
  by (rule round_exact_in_binade [where k = 8 and m = "500 * 2 ^ 44"]) simp_all

lemma round_1500: "roundDouble 1500 = 1500"
  by (rule round_exact_in_binade [where k = 10 and m = "1500 * 2 ^ 42"]) simp_all

lemma round_2500: "roundDouble 2500 = 2500"
  by (rule round_exact_in_binade [where k = 11 and m = "2500 * 2 ^ 41"]) simp_all

lemma jitter_1000_bounds:
  assumes "0 \<le> r" and "r \<le> 1 - 1 / 2 ^ 53"
  shows "0 \<le> roundDouble (r * 1000)" and "roundDouble (r * 1000) < 1000"
proof -
  let ?x = "r * 1000"
  from assms(1) have x0: "0 \<le> ?x" by simp
  then show "0 \<le> roundDouble ?x" by (rule round_nonneg)
  from assms(2) have xu: "?x \<le> 1000 - 1000 / 2 ^ 53" by simp
  show "roundDouble ?x < 1000"
  proof (cases "?x \<le> 512")
    case True
    with x0 have "roundDouble ?x \<le> 512" using rep_512 by (rule round_le_representable)
    then show ?thesis by simp
  next
    case False
    then have lo: "2 ^ 9 \<le> \<bar>?x\<bar>" by simp
    from xu have hi: "\<bar>?x\<bar> < 2 ^ (9 + 1)" using x0 by simp
    have r: "roundDouble ?x = of_int (roundTiesToEven (?x * 2 ^ (52 - 9))) / 2 ^ (52 - 9)"
      using lo hi by (rule round_in_binade) simp
    from xu have "?x * 2 ^ 43 \<le> (1000 - 1000 / 2 ^ 53) * 2 ^ 43" by (intro mult_right_mono) simp_all
    also have "\<dots> < of_int (1000 * 2 ^ 43) - 1 / 2" by simp
    finally have "roundTiesToEven (?x * 2 ^ 43) < 1000 * 2 ^ 43" by (rule rte_below_half)
    then have "(of_int (roundTiesToEven (?x * 2 ^ 43)) :: real) < of_int (1000 * 2 ^ 43)"
      by (simp only: of_int_less_iff)
    then have "of_int (roundTiesToEven (?x * 2 ^ 43)) / 2 ^ 43 < (of_int (1000 * 2 ^ 43) :: real) / 2 ^ 43"
      by (intro divide_strict_right_mono) simp_all
    with r show ?thesis by simp
  qed
qed

lemma first_delay_bounds:
  assumes "0 \<le> j" and "j \<le> 1000"
  shows "1000 \<le> roundDouble (1000 + j)" and "roundDouble (1000 + j) \<le> 2000"
proof -
  have "(0::real) \<le> 1000" by simp
  moreover from assms(1) have "1000 \<le> 1000 + j" by simp
  ultimately show "1000 \<le> roundDouble (1000 + j)" using rep_1000 by (rule round_ge_representable)
  from assms(1) have "0 \<le> 1000 + j" by simp
  moreover from assms(2) have "1000 + j \<le> 2000" by simp
  ultimately show "roundDouble (1000 + j) \<le> 2000" using rep_2000 by (rule round_le_representable)
qed

lemma second_delay_bounds:
  assumes "0 \<le> j" and "j \<le> 1000"
  shows "2000 \<le> roundDouble (2000 + j)" and "roundDouble (2000 + j) \<le> 3000"
proof -
  have "(0::real) \<le> 2000" by simp
  moreover from assms(1) have "2000 \<le> 2000 + j" by simp
  ultimately show "2000 \<le> roundDouble (2000 + j)" using rep_2000 by (rule round_ge_representable)
  from assms(1) have "0 \<le> 2000 + j" by simp
  moreover from assms(2) have "2000 + j \<le> 3000" by simp
  ultimately show "roundDouble (2000 + j) \<le> 3000" using rep_3000 by (rule round_le_representable)
qed

lemma edge_jitter: "roundDouble ((1 - 1 / 2 ^ 52) * 1000) = 1000 - 1 / 2 ^ 42"
proof -
  let ?x = "(1 - 1 / 2 ^ 52) * (1000::real)"
  have r: "roundDouble ?x = of_int (roundTiesToEven (?x * 2 ^ (52 - 9))) / 2 ^ (52 - 9)"
    by (rule round_in_binade) simp_all
  have "roundTiesToEven (?x * 2 ^ 43) = 1000 * 2 ^ 43 - 2"
    by (rule rte_near) simp_all
  with r show ?thesis by simp
qed

lemma edge_first_delay: "roundDouble (1000 + (1000 - 1 / 2 ^ 42)) = 2000 - 1 / 2 ^ 42"
proof -
  have "roundDouble (1000 + (1000 - 1 / 2 ^ 42)) = 1000 + (1000 - 1 / 2 ^ 42)"
    by (rule round_exact_in_binade [where k = 10 and m = "2000 * 2 ^ 42 - 1"]) simp_all
  then show ?thesis by simp
qed

lemma edge_second_delay: "roundDouble (2000 + (1000 - 1 / 2 ^ 42)) = 3000"
proof -
  let ?x = "2000 + (1000 - 1 / 2 ^ 42) :: real"
  have r: "roundDouble ?x = of_int (roundTiesToEven (?x * 2 ^ (52 - 11))) / 2 ^ (52 - 11)"
    by (rule round_in_binade) simp_all
  have "roundTiesToEven (?x * 2 ^ 41) = (3000 * 2 ^ 41 - 1) + 1"
    by (rule rte_tie_odd) simp_all
  with r show ?thesis by simp
qed

section \<open>Facts about the retry loop\<close>

lemma retryLater_world [simp]: "world (retryLater cfg attempt error s) = world s"
  by (simp add: retryLater_def Math_random_def elizaLogger_log_def setTimeout_await_def Let_def)

lemma retryLater_entropy [simp]: "entropy (retryLater cfg attempt error s) = entropy s"
  by (simp add: retryLater_def Math_random_def elizaLogger_log_def setTimeout_await_def Let_def)

lemma retryLater_drawn [simp]: "drawn (retryLater cfg attempt error s) = Suc (drawn s)"
  by (simp add: retryLater_def Math_random_def elizaLogger_log_def setTimeout_await_def Let_def)

lemma retryLater_sleeps [simp]:
  "sleeps (retryLater cfg attempt error s) =
     sleeps s @ [roundDouble (backoffDelay cfg attempt + roundDouble (entropy s (drawn s) * jitterMax cfg))]"
  by (simp add: retryLater_def Math_random_def elizaLogger_log_def setTimeout_await_def Let_def)

lemma retryLater_logged [simp]:
  "logged (retryLater cfg attempt error s) =
     logged s @ [RetryWarning attempt (maxRetries cfg) (errorText error)
                   (roundDouble (backoffDelay cfg attempt + roundDouble (entropy s (drawn s) * jitterMax cfg)))]"
  by (simp add: retryLater_def Math_random_def elizaLogger_log_def setTimeout_await_def Let_def)

lemma retryLater_clock [simp]:
  "clock (retryLater cfg attempt error s) =
     clock s + max 0 (roundDouble (backoffDelay cfg attempt + roundDouble (entropy s (drawn s) * jitterMax cfg)))"
  by (simp add: retryLater_def Math_random_def elizaLogger_log_def setTimeout_await_def Let_def)

lemma loop_success:
  "attempt \<le> maxRetries cfg \<Longrightarrow> operation (world s) = (Inr result, w) \<Longrightarrow>
   withRetry_loop cfg operation attempt lastError s = (Inr result, s\<lparr>world := w\<rparr>)"
  by (subst withRetry_loop.simps) simp

lemma loop_retry:
  "attempt < maxRetries cfg \<Longrightarrow> operation (world s) = (Inl error, w) \<Longrightarrow>
   withRetry_loop cfg operation attempt lastError s =
     withRetry_loop cfg operation (Suc attempt) error (retryLater cfg attempt error (s\<lparr>world := w\<rparr>))"
  by (subst withRetry_loop.simps) simp

lemma loop_exhausted:
  "attempt = maxRetries cfg \<Longrightarrow> operation (world s) = (Inl error, w) \<Longrightarrow>
   withRetry_loop cfg operation attempt lastError s =
     (Inl (asError error),
      elizaLogger_log (MaxRetriesReached (errorText error) attempt) (s\<lparr>world := w\<rparr>))"
  by (subst withRetry_loop.simps) simp

lemma loop_not_entered:
  "maxRetries cfg < attempt \<Longrightarrow> withRetry_loop cfg operation attempt lastError s = (Inl lastError, s)"
  by (subst withRetry_loop.simps) simp

lemma loop_result_from_operation:
  "fst (withRetry_loop cfg operation attempt lastError s) = Inr v \<Longrightarrow> \<exists>w. fst (operation w) = Inr v"
proof (induction "maxRetries cfg - attempt" arbitrary: attempt lastError s)
  case 0
  show ?case
  proof (cases "attempt \<le> maxRetries cfg")
    case False
    with "0.prems" show ?thesis by (simp add: loop_not_entered)
  next
    case True
    with "0.hyps" have last: "attempt = maxRetries cfg" by simp
    obtain r w where ow: "operation (world s) = (r, w)" by (cases "operation (world s)")
    show ?thesis
    proof (cases r)
      case (Inr x)
      with True ow "0.prems" have "x = v" by (simp add: loop_success)
      with Inr ow show ?thesis by (metis fst_conv)
    next
      case (Inl e)
      with last ow "0.prems" show ?thesis by (simp add: loop_exhausted)
    qed
  qed
next
  case (Suc n)
  then have more: "attempt < maxRetries cfg" by simp
  obtain r w where ow: "operation (world s) = (r, w)" by (cases "operation (world s)")
  show ?case
  proof (cases r)
    case (Inr x)
    with more ow Suc.prems have "x = v" by (simp add: loop_success)
    with Inr ow show ?thesis by (metis fst_conv)
  next
    case (Inl e)
    from Suc.hyps(2) have "n = maxRetries cfg - Suc attempt" by simp
    moreover from more Inl ow Suc.prems
    have "fst (withRetry_loop cfg operation (Suc attempt) e
                 (retryLater cfg attempt e (s\<lparr>world := w\<rparr>))) = Inr v"
      by (simp add: loop_retry)
    ultimately show ?thesis by (rule Suc.hyps(1))
  qed
qed

lemma loop_error_from_operation:
  "attempt \<le> maxRetries cfg \<Longrightarrow> fst (withRetry_loop cfg operation attempt lastError s) = Inl e \<Longrightarrow>
   \<exists>w e'. fst (operation w) = Inl e' \<and> e = asError e'"
proof (induction "maxRetries cfg - attempt" arbitrary: attempt lastError s)
  case 0
  then have last: "attempt = maxRetries cfg" by simp
  obtain r w where ow: "operation (world s) = (r, w)" by (cases "operation (world s)")
  show ?case
  proof (cases r)
    case (Inr x)
    with ow "0.prems" show ?thesis by (simp add: loop_success)
  next
    case (Inl e0)
    with last ow "0.prems" have "e = asError e0" by (simp add: loop_exhausted)
    with Inl ow show ?thesis by (metis fst_conv)
  qed
next
  case (Suc n)
  then have more: "attempt < maxRetries cfg" by simp
  obtain r w where ow: "operation (world s) = (r, w)" by (cases "operation (world s)")
  show ?case
  proof (cases r)
    case (Inr x)
    with more ow Suc.prems show ?thesis by (simp add: loop_success)
  next
    case (Inl e0)
    from Suc.hyps(2) have "n = maxRetries cfg - Suc attempt" by simp
    moreover from more have "Suc attempt \<le> maxRetries cfg" by simp
    moreover from more Inl ow Suc.prems
    have "fst (withRetry_loop cfg operation (Suc attempt) e0
                 (retryLater cfg attempt e0 (s\<lparr>world := w\<rparr>))) = Inl e"
      by (simp add: loop_retry)
    ultimately show ?thesis by (rule Suc.hyps(1))
  qed
qed

lemma loop_all_fail:
  assumes "1 \<le> attempt" "attempt \<le> maxRetries cfg"
    and "\<forall>j \<le> maxRetries cfg - attempt. isl (fst (operation (worldAfter operation j (world s))))"
  shows "withRetry_loop cfg operation attempt lastError s =
           (Inl (asError (projl (fst (operation (worldAfter operation (maxRetries cfg - attempt) (world s)))))),
            snd (withRetry_loop cfg operation attempt lastError s))
         \<and> world (snd (withRetry_loop cfg operation attempt lastError s)) =
             worldAfter operation (Suc (maxRetries cfg - attempt)) (world s)
         \<and> length (sleeps (snd (withRetry_loop cfg operation attempt lastError s))) =
             length (sleeps s) + (maxRetries cfg - attempt)
         \<and> last (logged (snd (withRetry_loop cfg operation attempt lastError s))) =
             MaxRetriesReached
               (errorText (projl (fst (operation (worldAfter operation (maxRetries cfg - attempt) (world s))))))
               (maxRetries cfg)"
  using assms
proof (induction "maxRetries cfg - attempt" arbitrary: attempt lastError s)
  case 0
  then have last: "attempt = maxRetries cfg" by simp
  obtain r w where ow: "operation (world s) = (r, w)" by (cases "operation (world s)")
  from "0.prems"(3) have "isl (fst (operation (world s)))" by auto
  with ow obtain e where r: "r = Inl e" by (cases r) auto
  from last ow r show ?case
    by (simp add: loop_exhausted elizaLogger_log_def)
next
  case (Suc n)
  then have more: "attempt < maxRetries cfg" by simp
  obtain r w where ow: "operation (world s) = (r, w)" by (cases "operation (world s)")
  from Suc.prems(3) have "isl (fst (operation (worldAfter operation 0 (world s))))" by blast
  with ow obtain e where r: "r = Inl e" by (cases r) auto
  let ?s = "retryLater cfg attempt e (s\<lparr>world := w\<rparr>)"
  have step: "withRetry_loop cfg operation attempt lastError s =
              withRetry_loop cfg operation (Suc attempt) e ?s"
    using more ow r by (simp add: loop_retry)
  have n: "n = maxRetries cfg - Suc attempt" using Suc.hyps(2) by simp
  have diff: "maxRetries cfg - attempt = Suc (maxRetries cfg - Suc attempt)" using more by simp
  have fails: "\<forall>j \<le> maxRetries cfg - Suc attempt.
                 isl (fst (operation (worldAfter operation j (world ?s))))"
  proof (intro allI impI)
    fix j assume "j \<le> maxRetries cfg - Suc attempt"
    then have "Suc j \<le> maxRetries cfg - attempt" using more by simp
    with Suc.prems(3) have "isl (fst (operation (worldAfter operation (Suc j) (world s))))" by blast
    with ow show "isl (fst (operation (worldAfter operation j (world ?s))))" by simp
  qed
  have "1 \<le> Suc attempt" "Suc attempt \<le> maxRetries cfg" using more by simp_all
  from Suc.hyps(1) [OF n this fails, of e] ow
  show ?case unfolding step diff by simp
qed

lemma loop_first_success:
  assumes "attempt + k \<le> maxRetries cfg"
    and "\<forall>j < k. isl (fst (operation (worldAfter operation j (world s))))"
    and "fst (operation (worldAfter operation k (world s))) = Inr v"
  shows "fst (withRetry_loop cfg operation attempt lastError s) = Inr v"
  using assms
proof (induction k arbitrary: attempt lastError s)
  case 0
  obtain r w where ow: "operation (world s) = (r, w)" by (cases "operation (world s)")
  with "0.prems"(3) have "operation (world s) = (Inr v, w)" by simp
  moreover from "0.prems"(1) have "attempt \<le> maxRetries cfg" by simp
  ultimately have "withRetry_loop cfg operation attempt lastError s = (Inr v, s\<lparr>world := w\<rparr>)"
    by (intro loop_success)
  then show ?case by simp
next
  case (Suc k)
  obtain r w where ow: "operation (world s) = (r, w)" by (cases "operation (world s)")
  from Suc.prems(2) have "isl (fst (operation (worldAfter operation 0 (world s))))" by blast
  with ow obtain e where r: "r = Inl e" by (cases r) auto
  let ?s = "retryLater cfg attempt e (s\<lparr>world := w\<rparr>)"
  from Suc.prems(1) have more: "attempt < maxRetries cfg" by simp
  have step: "withRetry_loop cfg operation attempt lastError s =
              withRetry_loop cfg operation (Suc attempt) e ?s"
    using more ow r by (simp add: loop_retry)
  have 1: "Suc attempt + k \<le> maxRetries cfg" using Suc.prems(1) by simp
  have 2: "\<forall>j < k. isl (fst (operation (worldAfter operation j (world ?s))))"
  proof (intro allI impI)
    fix j assume "j < k"
    then have "Suc j < Suc k" by simp
    with Suc.prems(2) have "isl (fst (operation (worldAfter operation (Suc j) (world s))))" by blast
    with ow show "isl (fst (operation (worldAfter operation j (world ?s))))" by simp
  qed
  have 3: "fst (operation (worldAfter operation k (world ?s))) = Inr v"
    using Suc.prems(3) ow by simp
  from Suc.IH [OF 1 2 3, of e] show ?case unfolding step .
qed

lemma two_failures_then_success:
  assumes "operation (world s) = (Inl e1, w1) \<and> operation w1 = (Inl e2, w2)
             \<and> operation w2 = (Inr result, w3)"
  shows "withRetry glacier_settings operation s =
           (Inr result, snd (withRetry glacier_settings operation s))"
    and "world (snd (withRetry glacier_settings operation s)) = w3"
    and "sleeps (snd (withRetry glacier_settings operation s)) =
           sleeps s @ [roundDouble (1000 + roundDouble (entropy s (drawn s) * 1000)),
                       roundDouble (2000 + roundDouble (entropy s (Suc (drawn s)) * 1000))]"
proof -
  note a = assms
  let ?g = glacier_settings
  let ?s1 = "retryLater ?g (Suc 0) e1 (s\<lparr>world := w1\<rparr>)"
  let ?s2 = "retryLater ?g (Suc (Suc 0)) e2 (?s1\<lparr>world := w2\<rparr>)"
  have m: "maxRetries ?g = Suc (Suc (Suc 0))" by (simp add: glacier_settings_def)
  have step1: "withRetry_loop ?g operation (Suc 0) (ErrorObject ''Unknown error'') s =
               withRetry_loop ?g operation (Suc (Suc 0)) e1 ?s1"
    by (rule loop_retry) (use a m in simp_all)
  have step2: "withRetry_loop ?g operation (Suc (Suc 0)) e1 ?s1 =
               withRetry_loop ?g operation (Suc (Suc (Suc 0))) e2 ?s2"
    by (rule loop_retry) (use a m in simp_all)
  have step3: "withRetry_loop ?g operation (Suc (Suc (Suc 0))) e2 ?s2 = (Inr result, ?s2\<lparr>world := w3\<rparr>)"
    by (rule loop_success) (use a m in simp_all)
  have res: "withRetry ?g operation s = (Inr result, ?s2\<lparr>world := w3\<rparr>)"
    unfolding withRetry_def One_nat_def using step1 step2 step3 by (rule trans [OF trans])
  have b1: "backoffDelay ?g (Suc 0) = 1000" by (simp add: backoffDelay_def glacier_settings_def)
  have b2: "backoffDelay ?g (Suc (Suc 0)) = 2000" by (simp add: backoffDelay_def glacier_settings_def)
  have j: "jitterMax ?g = 1000" by (simp add: glacier_settings_def)
  show "withRetry ?g operation s = (Inr result, snd (withRetry ?g operation s))" by (simp add: res)
  show "world (snd (withRetry ?g operation s)) = w3" by (simp add: res)
  show "sleeps (snd (withRetry ?g operation s)) =
           sleeps s @ [roundDouble (1000 + roundDouble (entropy s (drawn s) * 1000)),
                       roundDouble (2000 + roundDouble (entropy s (Suc (drawn s)) * 1000))]"
    by (simp add: res b1 b2 j)
qed

section \<open>Facts about the breaker and the executor\<close>

lemma admit_not_open: "circuitState b \<noteq> OPEN \<Longrightarrow> admit cfg now b = Some b"
  by (cases "circuitState b") (simp_all add: admit_def)

lemma admit_open_early:
  "circuitState b = OPEN \<Longrightarrow> now - lastTransition b < resetTimeout cfg \<Longrightarrow> admit cfg now b = None"
  by (simp add: admit_def)

lemma admit_open_late:
  "circuitState b = OPEN \<Longrightarrow> resetTimeout cfg \<le> now - lastTransition b \<Longrightarrow>
   admit cfg now b = Some (b\<lparr>circuitState := HALF_OPEN, halfOpenTrials := 0\<rparr>)"
  by (simp add: admit_def)

lemma execute_admitted:
  "admit cfg (clock s) b = Some b1 \<Longrightarrow>
   execute cfg act (b, s) =
     (case act s of
        (Inr result, s') \<Rightarrow> (Inr result, onSuccess cfg b1, s')
      | (Inl error, s') \<Rightarrow> (Inl (Raised error), onFailure cfg (clock s') b1, s'))"
  by (simp add: execute_def)

lemma execute_rejected:
  "admit cfg (clock s) b = None \<Longrightarrow> execute cfg act (b, s) = (Inl CircuitOpenError, b, s)"
  by (simp add: execute_def)

lemma execute_failing:
  "admit cfg (clock s) b = Some b1 \<Longrightarrow> isl (fst (act s)) \<Longrightarrow>
   execute cfg act (b, s) =
     (Inl (Raised (projl (fst (act s)))), onFailure cfg (clock (snd (act s))) b1, snd (act s))"
  by (cases "act s") (auto simp: execute_def isl_def)

lemma execute_succeeding:
  "admit cfg (clock s) b = Some b1 \<Longrightarrow> \<not> isl (fst (act s)) \<Longrightarrow>
   execute cfg act (b, s) = (Inr (projr (fst (act s))), onSuccess cfg b1, snd (act s))"
  by (cases "act s") (auto simp: execute_def split: sum.splits)

lemma execute_result:
  "fst (execute cfg act (b, s)) = Inr v \<Longrightarrow> fst (act s) = Inr v"
  by (auto simp: execute_def split: option.splits prod.splits sum.splits)

lemma execute_raised:
  "fst (execute cfg act (b, s)) = Inl (Raised e) \<Longrightarrow> fst (act s) = Inl e"
  by (auto simp: execute_def split: option.splits prod.splits sum.splits)

lemma withDatabase_unfold:
  "withDatabase this operation context (b, s) =
     execute (circuit this) (withRetry (retry this) operation) (b, s)"
  by (simp add: withDatabase_def withCircuitBreaker_def)

lemma withDatabase_result:
  "fst (withDatabase this operation context bs) = Inr v \<Longrightarrow> \<exists>w. fst (operation w) = Inr v"
proof -
  assume a: "fst (withDatabase this operation context bs) = Inr v"
  obtain b s where bs: "bs = (b, s)" by (cases bs)
  from a have "fst (withRetry (retry this) operation s) = Inr v"
    unfolding withDatabase_def withCircuitBreaker_def bs by (rule execute_result)
  then show ?thesis unfolding withRetry_def by (rule loop_result_from_operation)
qed

lemma withDatabase_first_success:
  assumes "operation (world s) = (Inr result, w)" and "1 \<le> maxRetries (retry this)"
    and "circuitState b = CLOSED" and "failureCount b = 0"
  shows "withDatabase this operation context (b, s) = (Inr result, b, s\<lparr>world := w\<rparr>)"
proof -
  have "withRetry (retry this) operation s = (Inr result, s\<lparr>world := w\<rparr>)"
    unfolding withRetry_def using assms(2) assms(1) by (rule loop_success)
  moreover have "admit (circuit this) (clock s) b = Some b" using assms(3) by (simp add: admit_def)
  moreover have "onSuccess (circuit this) b = b" using assms(3,4) by (simp add: onSuccess_def)
  ultimately show ?thesis
    by (simp add: withDatabase_def withCircuitBreaker_def execute_admitted)
qed




lemma half_open_counts_successes:
  assumes "circuitState b = HALF_OPEN" and "\<forall>s. \<not> isl (fst (act s))"
    and "halfOpenTrials b + k < halfOpenMaxAttempts cfg"
  shows "circuitState (fst (executeTimes k cfg act (b, s))) = HALF_OPEN
         \<and> halfOpenTrials (fst (executeTimes k cfg act (b, s))) = halfOpenTrials b + k"
  using assms(3)
proof (induction k)
  case 0
  show ?case using assms(1) by simp
next
  case (Suc k)
  obtain bk sk where e: "executeTimes k cfg act (b, s) = (bk, sk)" by (cases "executeTimes k cfg act (b, s)")
  from Suc e have bk: "circuitState bk = HALF_OPEN" "halfOpenTrials bk = halfOpenTrials b + k" by simp_all
  then have "admit cfg (clock sk) bk = Some bk" by (simp add: admit_not_open)
  moreover from assms(2) have "\<not> isl (fst (act sk))" ..
  ultimately have "execute cfg act (bk, sk) = (Inr (projr (fst (act sk))), onSuccess cfg bk, snd (act sk))"
    by (rule execute_succeeding)
  moreover have "circuitState (onSuccess cfg bk) = HALF_OPEN
                 \<and> halfOpenTrials (onSuccess cfg bk) = halfOpenTrials b + Suc k"
    using bk Suc.prems by (simp add: onSuccess_def)
  ultimately show ?case using e by simp
qed

section \<open>Facts about \<^verbatim>\<open>getMemories\<close>\<close>

lemma parseContents_length:
  "parseContents JSON_parse ms = Inr ms' \<Longrightarrow> length ms' = length ms"
  by (induction ms arbitrary: ms') (auto split: content.splits sum.splits)

lemma parseContents_objects:
  "\<forall>m \<in> set ms. \<exists>j. content m = Object j \<Longrightarrow> parseContents JSON_parse ms = Inr ms"
  by (induction ms) auto

lemma getMemories_limit_at_most_20:
  "getMemories_limit params = Some m \<Longrightarrow> m \<le> 20"
  by (auto simp: getMemories_limit_def split: option.splits if_splits)

lemma getMemories_limit_given:
  "count params = Some n \<Longrightarrow> \<exists>m. getMemories_limit params = Some m"
  by (simp add: getMemories_limit_def)

lemma getMemories_operation_length:
  assumes contract: "\<forall>c w rows w'. toArray c w = (Inr rows, w') \<longrightarrow>
                       (case limit c of Some n \<Rightarrow> int (length rows) \<le> n | None \<Rightarrow> True)"
    and given: "count params = Some n"
    and res: "fst (getMemories_operation toArray JSON_parse params w) = Inr memories"
  shows "length memories \<le> 20"
proof -
  obtain r w' where t: "toArray (getMemories_cursor params) w = (r, w')"
    by (cases "toArray (getMemories_cursor params) w")
  from res t obtain rows where r: "r = Inr rows" and p: "parseContents JSON_parse rows = Inr memories"
    by (cases r) (auto simp: getMemories_operation_def)
  from given obtain m where m: "getMemories_limit params = Some m"
    using getMemories_limit_given by blast
  then have "limit (getMemories_cursor params) = Some m" by (simp add: getMemories_cursor_def)
  with contract t r have "int (length rows) \<le> m" by fastforce
  moreover from m have "m \<le> 20" by (rule getMemories_limit_at_most_20)
  moreover from p have "length memories = length rows" by (rule parseContents_length)
  ultimately show ?thesis by simp
qed

lemma firstRows_contract:
  "\<forall>c w rows w'. firstRows c w = (Inr rows, w') \<longrightarrow>
     (case limit c of Some n \<Rightarrow> int (length rows) \<le> n | None \<Rightarrow> True)"
  by (auto simp: firstRows_def split: option.splits if_splits)

lemma getMemories_example:
  "getMemories GlacierDBDatabaseAdapter firstRows parseLength someParams (closed_breaker, memoryRuntime) =
     (Inr (replicate 20 \<lparr>memoryId = ''m'', content = Object 0\<rparr>), closed_breaker, memoryRuntime)"
proof -
  let ?rows = "replicate 20 \<lparr>memoryId = ''m'', content = Object (0::nat)\<rparr>"
  have lim: "limit (getMemories_cursor someParams) = Some 20"
    by (simp add: getMemories_cursor_def getMemories_limit_def someParams_def)
  have rows: "firstRows (getMemories_cursor someParams) thirtyRows = (Inr ?rows, thirtyRows)"
    by (simp add: firstRows_def lim thirtyRows_def)
  have "parseContents parseLength ?rows = Inr ?rows"
    by (rule parseContents_objects) simp
  with rows have op: "getMemories_operation firstRows parseLength someParams (world memoryRuntime)
                        = (Inr ?rows, thirtyRows)"
    by (simp add: getMemories_operation_def memoryRuntime_def)
  have "withDatabase GlacierDBDatabaseAdapter (getMemories_operation firstRows parseLength someParams)
          ''getMemories'' (closed_breaker, memoryRuntime)
        = (Inr ?rows, closed_breaker, memoryRuntime\<lparr>world := thirtyRows\<rparr>)"
    using op by (rule withDatabase_first_success) simp_all
  moreover have "memoryRuntime\<lparr>world := thirtyRows\<rparr> = memoryRuntime"
    by (simp add: memoryRuntime_def)
  ultimately show ?thesis by (simp add: getMemories_def someParams_def)
qed

section \<open>Retries: exhaustion and delays\<close>

text \<open>
  C1 (as amended). When the operation fails on each of the \<open>maxRetries\<close> attempts
  (\<open>maxRetries\<close> at least one), \<^verbatim>\<open>withRetry\<close> makes exactly \<open>maxRetries\<close> attempts and no
  further one, sleeps \<open>maxRetries - 1\<close> times, and propagates the error of the last
  attempt itself (as \<^verbatim>\<open>new Error(String(error))\<close> when it is not an \<^verbatim>\<open>Error\<close>). The number
  of attempts goes to the error log (\<^verbatim>\<open>totalAttempts\<close>), not into the propagated error.
\<close>

theorem withRetry_exhausted:
  assumes "1 \<le> maxRetries cfg"
    and "\<forall>j < maxRetries cfg. isl (fst (operation (worldAfter operation j (world s))))"
  shows "fst (withRetry cfg operation s) =
           Inl (asError (projl (fst (operation (worldAfter operation (maxRetries cfg - 1) (world s))))))
         \<and> world (snd (withRetry cfg operation s)) = worldAfter operation (maxRetries cfg) (world s)
         \<and> length (sleeps (snd (withRetry cfg operation s))) = length (sleeps s) + (maxRetries cfg - 1)
         \<and> last (logged (snd (withRetry cfg operation s))) =
             MaxRetriesReached
               (errorText (projl (fst (operation (worldAfter operation (maxRetries cfg - 1) (world s))))))
               (maxRetries cfg)"
proof -
  have fails: "\<forall>j \<le> maxRetries cfg - 1. isl (fst (operation (worldAfter operation j (world s))))"
    using assms by auto
  have one: "(1::nat) \<le> 1" by simp
  from loop_all_fail [OF one assms(1) fails, of "ErrorObject ''Unknown error''"] assms(1)
  show ?thesis
    unfolding withRetry_def by (cases "withRetry_loop cfg operation 1 (ErrorObject ''Unknown error'') s") simp
qed

text \<open>
  The adapter's settings on a store that is always down: three calls, two sleeps, and
  the store's error back.
\<close>

theorem withRetry_exhausted_witness:
  "fst (withRetry glacier_settings alwaysDown runtime0) = Inl (ErrorObject ''down'')
   \<and> world (snd (withRetry glacier_settings alwaysDown runtime0)) = 3
   \<and> length (sleeps (snd (withRetry glacier_settings alwaysDown runtime0))) = 2
   \<and> last (logged (snd (withRetry glacier_settings alwaysDown runtime0))) = MaxRetriesReached ''down'' 3"
proof -
  have a: "1 \<le> maxRetries glacier_settings" by (simp add: glacier_settings_def)
  have b: "\<forall>j < maxRetries glacier_settings.
             isl (fst (alwaysDown (worldAfter alwaysDown j (world runtime0))))"
    by simp
  from withRetry_exhausted [OF a b] show ?thesis
    by (simp add: glacier_settings_def runtime0_def)
qed

text \<open>
  C1 as stated fails: no error of a kind of its own, carrying the attempt count, is
  propagated. A store that always rejects with \<^verbatim>\<open>Error("down")\<close> makes \<^verbatim>\<open>withRetry\<close>
  reject with that very value, whether the budget is three attempts or one.
\<close>

theorem withRetry_exhausted_counterexample:
  "fst (alwaysDown 0) = Inl (ErrorObject ''down'')
   \<and> fst (withRetry glacier_settings alwaysDown runtime0) = Inl (ErrorObject ''down'')
   \<and> fst (withRetry (glacier_settings\<lparr>maxRetries := 1\<rparr>) alwaysDown runtime0) = Inl (ErrorObject ''down'')"
  by (simp add: withRetry_def loop_retry loop_exhausted alwaysDown_def glacier_settings_def)

text \<open>
  C2 (as amended). With every draw of \<^verbatim>\<open>Math.random()\<close> a double in \<open>[0, 1)\<close>, that is, at
  most \<open>1 - 2 ^ -53\<close>: when attempt \<open>k\<close>, \<open>1 \<le> k < maxRetries\<close>, fails, the loop goes on to
  attempt \<open>k + 1\<close> after one sleep; its delay is \<open>min (baseDelay * 2 ^ (k - 1)) maxDelay\<close>
  plus the jitter, the jitter is a draw of its own times \<open>jitterMax\<close>, which lies in
  \<open>[0, jitterMax)\<close>, and product and sum are each rounded to the nearest double. With the
  adapter's settings (3, 1000, 10000, 1000), an operation that fails at attempts 1 and 2
  and succeeds at attempt 3 returns the result of attempt 3 after exactly two sleeps;
  each jitter is in \<open>[0, 1000)\<close>, the first delay in \<open>[1000, 2000]\<close> and the second in
  \<open>[2000, 3000]\<close>.
\<close>

theorem backoff_delays:
  assumes rnd: "\<forall>i. 0 \<le> entropy s i \<and> entropy s i \<le> 1 - 1 / 2 ^ 53"
  shows "(1 \<le> k \<and> k < maxRetries cfg \<and> 0 < jitterMax cfg \<and> operation (world s) = (Inl e, w) \<longrightarrow>
            (\<exists>r. r = entropy s (drawn s)
               \<and> 0 \<le> r * jitterMax cfg \<and> r * jitterMax cfg < jitterMax cfg
               \<and> withRetry_loop cfg operation k lastError s =
                   withRetry_loop cfg operation (Suc k) e (retryLater cfg k e (s\<lparr>world := w\<rparr>))
               \<and> sleeps (retryLater cfg k e (s\<lparr>world := w\<rparr>)) =
                   sleeps s @ [roundDouble (min (roundDouble (baseDelay cfg * 2 ^ (k - 1))) (maxDelay cfg)
                                            + roundDouble (r * jitterMax cfg))]
               \<and> drawn (retryLater cfg k e (s\<lparr>world := w\<rparr>)) = Suc (drawn s)))
         \<and> (operation (world s) = (Inl e1, w1) \<and> operation w1 = (Inl e2, w2)
              \<and> operation w2 = (Inr result, w3) \<longrightarrow>
            (\<exists>j1 j2 d1 d2. withRetry glacier_settings operation s =
                        (Inr result, snd (withRetry glacier_settings operation s))
               \<and> world (snd (withRetry glacier_settings operation s)) = w3
               \<and> sleeps (snd (withRetry glacier_settings operation s)) = sleeps s @ [d1, d2]
               \<and> j1 = roundDouble (entropy s (drawn s) * 1000)
               \<and> j2 = roundDouble (entropy s (Suc (drawn s)) * 1000)
               \<and> d1 = roundDouble (1000 + j1) \<and> d2 = roundDouble (2000 + j2)
               \<and> 0 \<le> j1 \<and> j1 < 1000 \<and> 0 \<le> j2 \<and> j2 < 1000
               \<and> 1000 \<le> d1 \<and> d1 \<le> 2000 \<and> 2000 \<le> d2 \<and> d2 \<le> 3000))"
proof (intro conjI impI)
  assume a: "1 \<le> k \<and> k < maxRetries cfg \<and> 0 < jitterMax cfg \<and> operation (world s) = (Inl e, w)"
  let ?r = "entropy s (drawn s)"
  from rnd have r: "0 \<le> ?r" "?r \<le> 1 - 1 / 2 ^ 53" by simp_all
  from r(2) have r1: "?r < 1" by simp
  from a have pos: "0 < jitterMax cfg" by simp
  have "0 \<le> ?r * jitterMax cfg" using r(1) pos by simp
  moreover have "?r * jitterMax cfg < jitterMax cfg" using r1 pos by simp
  moreover have "withRetry_loop cfg operation k lastError s =
                   withRetry_loop cfg operation (Suc k) e (retryLater cfg k e (s\<lparr>world := w\<rparr>))"
    using a by (simp add: loop_retry)
  moreover have "sleeps (retryLater cfg k e (s\<lparr>world := w\<rparr>)) =
                   sleeps s @ [roundDouble (min (roundDouble (baseDelay cfg * 2 ^ (k - 1))) (maxDelay cfg)
                                            + roundDouble (?r * jitterMax cfg))]"
    by (simp add: backoffDelay_def)
  ultimately show "\<exists>r. r = entropy s (drawn s)
               \<and> 0 \<le> r * jitterMax cfg \<and> r * jitterMax cfg < jitterMax cfg
               \<and> withRetry_loop cfg operation k lastError s =
                   withRetry_loop cfg operation (Suc k) e (retryLater cfg k e (s\<lparr>world := w\<rparr>))
               \<and> sleeps (retryLater cfg k e (s\<lparr>world := w\<rparr>)) =
                   sleeps s @ [roundDouble (min (roundDouble (baseDelay cfg * 2 ^ (k - 1))) (maxDelay cfg)
                                            + roundDouble (r * jitterMax cfg))]
               \<and> drawn (retryLater cfg k e (s\<lparr>world := w\<rparr>)) = Suc (drawn s)"
    by (intro exI [of _ ?r] conjI refl) simp_all
next
  assume a: "operation (world s) = (Inl e1, w1) \<and> operation w1 = (Inl e2, w2)
              \<and> operation w2 = (Inr result, w3)"
  let ?j1 = "roundDouble (entropy s (drawn s) * 1000)"
  let ?j2 = "roundDouble (entropy s (Suc (drawn s)) * 1000)"
  from rnd have r1: "0 \<le> entropy s (drawn s)" "entropy s (drawn s) \<le> 1 - 1 / 2 ^ 53" by simp_all
  from rnd have r2: "0 \<le> entropy s (Suc (drawn s))" "entropy s (Suc (drawn s)) \<le> 1 - 1 / 2 ^ 53"
    by simp_all
  have j1: "0 \<le> ?j1" "?j1 < 1000" using r1 by (rule jitter_1000_bounds)+
  have j2: "0 \<le> ?j2" "?j2 < 1000" using r2 by (rule jitter_1000_bounds)+
  from j1 have d1: "1000 \<le> roundDouble (1000 + ?j1)" "roundDouble (1000 + ?j1) \<le> 2000"
    by (simp_all add: first_delay_bounds)
  from j2 have d2: "2000 \<le> roundDouble (2000 + ?j2)" "roundDouble (2000 + ?j2) \<le> 3000"
    by (simp_all add: second_delay_bounds)
  have res: "withRetry glacier_settings operation s =
               (Inr result, snd (withRetry glacier_settings operation s))"
    using a by (rule two_failures_then_success)
  have wld: "world (snd (withRetry glacier_settings operation s)) = w3"
    using a by (rule two_failures_then_success)
  have slp: "sleeps (snd (withRetry glacier_settings operation s)) =
               sleeps s @ [roundDouble (1000 + ?j1), roundDouble (2000 + ?j2)]"
    using a by (rule two_failures_then_success)
  from res wld slp j1 j2 d1 d2
  show "\<exists>j1 j2 d1 d2. withRetry glacier_settings operation s =
                        (Inr result, snd (withRetry glacier_settings operation s))
               \<and> world (snd (withRetry glacier_settings operation s)) = w3
               \<and> sleeps (snd (withRetry glacier_settings operation s)) = sleeps s @ [d1, d2]
               \<and> j1 = roundDouble (entropy s (drawn s) * 1000)
               \<and> j2 = roundDouble (entropy s (Suc (drawn s)) * 1000)
               \<and> d1 = roundDouble (1000 + j1) \<and> d2 = roundDouble (2000 + j2)
               \<and> 0 \<le> j1 \<and> j1 < 1000 \<and> 0 \<le> j2 \<and> j2 < 1000
               \<and> 1000 \<le> d1 \<and> d1 \<le> 2000 \<and> 2000 \<le> d2 \<and> d2 \<le> 3000"
    by blast
qed

text \<open>
  A store down for two calls, every draw being one half: the sleeps are 1500 and 2500.
\<close>

theorem backoff_delays_witness:
  "(\<forall>i. 0 \<le> entropy runtime0 i \<and> entropy runtime0 i \<le> 1 - 1 / 2 ^ 53)
   \<and> fst (withRetry glacier_settings (downFor 2) runtime0) = Inr 3
   \<and> world (snd (withRetry glacier_settings (downFor 2) runtime0)) = 3
   \<and> sleeps (snd (withRetry glacier_settings (downFor 2) runtime0)) = [1500, 2500]
   \<and> sleeps (retryLater glacier_settings 1 (ErrorObject ''down'') (runtime0\<lparr>world := 1\<rparr>)) = [1500]"
proof -
  have h0: "\<forall>i. 0 \<le> entropy runtime0 i \<and> entropy runtime0 i \<le> 1 - 1 / 2 ^ 53" by simp
  have h1: "1 \<le> (1::nat) \<and> 1 < maxRetries glacier_settings \<and> 0 < jitterMax glacier_settings
            \<and> downFor 2 (world runtime0) = (Inl (ErrorObject ''down''), 1)"
    by (simp add: downFor_def)
  have h2: "downFor 2 (world runtime0) = (Inl (ErrorObject ''down''), 1)
            \<and> downFor 2 1 = (Inl (ErrorObject ''down''), 2) \<and> downFor 2 2 = (Inr 3, 3)"
    by (simp add: downFor_def)
  note T = backoff_delays
             [where s = runtime0 and k = 1 and cfg = glacier_settings and operation = "downFor 2"
                and e = "ErrorObject ''down''" and w = 1 and ?e1.0 = "ErrorObject ''down''" and ?w1.0 = 1
                and ?e2.0 = "ErrorObject ''down''" and ?w2.0 = 2 and result = 3 and ?w3.0 = 3, OF h0]
  from T h1 obtain r where R: "r = entropy runtime0 (drawn runtime0)"
    "sleeps (retryLater glacier_settings 1 (ErrorObject ''down'') (runtime0\<lparr>world := 1\<rparr>)) =
       sleeps runtime0 @ [roundDouble (min (roundDouble (baseDelay glacier_settings * 2 ^ (1 - 1)))
                                           (maxDelay glacier_settings)
                                       + roundDouble (r * jitterMax glacier_settings))]"
    by blast
  have A: "sleeps (retryLater glacier_settings 1 (ErrorObject ''down'') (runtime0\<lparr>world := 1\<rparr>)) = [1500]"
    using R(2) unfolding R(1) by (simp add: round_500 round_1500)
  from T h2 obtain j1 j2 d1 d2 where B:
    "withRetry glacier_settings (downFor 2) runtime0 =
       (Inr 3, snd (withRetry glacier_settings (downFor 2) runtime0))"
    "world (snd (withRetry glacier_settings (downFor 2) runtime0)) = 3"
    "sleeps (snd (withRetry glacier_settings (downFor 2) runtime0)) = sleeps runtime0 @ [d1, d2]"
    "j1 = roundDouble (entropy runtime0 (drawn runtime0) * 1000)"
    "j2 = roundDouble (entropy runtime0 (Suc (drawn runtime0)) * 1000)"
    "d1 = roundDouble (1000 + j1)" "d2 = roundDouble (2000 + j2)"
    by blast
  from B(1) have "fst (withRetry glacier_settings (downFor 2) runtime0) = Inr 3"
    by (metis fst_conv)
  with h0 A B show ?thesis by (simp add: round_500 round_1500 round_2500)
qed

text \<open>
  C2 as stated fails at the upper bounds, which are not strict. Let every draw be
  \<open>1 - 2 ^ -52\<close>, a double below 1, and the store be down for two calls. The jitter is
  \<open>1000 - 2 ^ -42\<close> both times; the first delay is \<open>2000 - 2 ^ -42\<close>; the second sum,
  \<open>3000 - 2 ^ -42\<close>, lies half way between two doubles and is rounded to 3000, which is
  not in \<open>[2000, 3000)\<close>.
\<close>

theorem backoff_delays_counterexample:
  "drawn edgeRuntime = 0
   \<and> entropy edgeRuntime 0 = 1 - 1 / 2 ^ 52 \<and> entropy edgeRuntime 1 = 1 - 1 / 2 ^ 52
   \<and> (0::real) \<le> 1 - 1 / 2 ^ 52 \<and> (1::real) - 1 / 2 ^ 52 < 1
   \<and> fst (withRetry glacier_settings (downFor 2) edgeRuntime) = Inr 3
   \<and> sleeps (snd (withRetry glacier_settings (downFor 2) edgeRuntime)) = [2000 - 1 / 2 ^ 42, 3000]
   \<and> \<not> (last (sleeps (snd (withRetry glacier_settings (downFor 2) edgeRuntime))) < 3000)"
proof -
  have h: "downFor 2 (world edgeRuntime) = (Inl (ErrorObject ''down''), 1)
            \<and> downFor 2 1 = (Inl (ErrorObject ''down''), 2) \<and> downFor 2 2 = (Inr 3, 3)"
    by (simp add: downFor_def edgeRuntime_def)
  have e: "\<And>i. entropy edgeRuntime i = 1 - 1 / 2 ^ 52" by (simp add: edgeRuntime_def)
  have s: "sleeps edgeRuntime = []" by (simp add: edgeRuntime_def)
  have "withRetry glacier_settings (downFor 2) edgeRuntime =
          (Inr 3, snd (withRetry glacier_settings (downFor 2) edgeRuntime))"
    using h by (rule two_failures_then_success)
  then have r: "fst (withRetry glacier_settings (downFor 2) edgeRuntime) = Inr 3"
    by (metis fst_conv)
  have "sleeps (snd (withRetry glacier_settings (downFor 2) edgeRuntime)) =
          sleeps edgeRuntime
            @ [roundDouble (1000 + roundDouble (entropy edgeRuntime (drawn edgeRuntime) * 1000)),
               roundDouble (2000 + roundDouble (entropy edgeRuntime (Suc (drawn edgeRuntime)) * 1000))]"
    using h by (rule two_failures_then_success)
  then have sl: "sleeps (snd (withRetry glacier_settings (downFor 2) edgeRuntime)) =
                   [2000 - 1 / 2 ^ 42, 3000]"
    by (simp only: e s edge_jitter edge_first_delay edge_second_delay append_Nil)
  have d: "drawn edgeRuntime = 0" by (simp add: edgeRuntime_def)
  from d r sl show ?thesis by (simp add: e)
qed

section \<open>The breaker around the retry loop\<close>

text \<open>
  C3. The composed executor is the breaker's \<^verbatim>\<open>execute\<close> around the retry loop. An OPEN
  breaker whose timeout has not elapsed refuses the call and the loop is not entered
  (runtime untouched). Otherwise the whole loop runs, its result and runtime are
  returned, and the breaker records the one final outcome: even when the operation
  failed \<open>maxRetries\<close> times inside the loop, a CLOSED breaker counts one failure.
\<close>

theorem breaker_around_retry:
  "withDatabase this operation context (b, s) =
     execute (circuit this) (withRetry (retry this) operation) (b, s)
   \<and> (circuitState b = OPEN \<and> clock s - lastTransition b < resetTimeout (circuit this) \<longrightarrow>
        withDatabase this operation context (b, s) = (Inl CircuitOpenError, b, s))
   \<and> (circuitState b \<noteq> OPEN \<longrightarrow>
        fst (withDatabase this operation context (b, s)) =
          map_sum Raised id (fst (withRetry (retry this) operation s))
        \<and> snd (snd (withDatabase this operation context (b, s))) =
            snd (withRetry (retry this) operation s)
        \<and> fst (snd (withDatabase this operation context (b, s))) =
            (if isl (fst (withRetry (retry this) operation s))
             then onFailure (circuit this) (clock (snd (withRetry (retry this) operation s))) b
             else onSuccess (circuit this) b))
   \<and> (circuitState b = CLOSED \<and> 1 \<le> maxRetries (retry this)
        \<and> (\<forall>j < maxRetries (retry this). isl (fst (operation (worldAfter operation j (world s))))) \<longrightarrow>
        world (snd (snd (withDatabase this operation context (b, s)))) =
          worldAfter operation (maxRetries (retry this)) (world s)
        \<and> failureCount (fst (snd (withDatabase this operation context (b, s)))) = Suc (failureCount b))"
proof (intro conjI impI)
  let ?act = "withRetry (retry this) operation"
  show u: "withDatabase this operation context (b, s) = execute (circuit this) ?act (b, s)"
    by (rule withDatabase_unfold)
  {
    assume "circuitState b = OPEN \<and> clock s - lastTransition b < resetTimeout (circuit this)"
    then have "admit (circuit this) (clock s) b = None" by (simp add: admit_open_early)
    then show "withDatabase this operation context (b, s) = (Inl CircuitOpenError, b, s)"
      unfolding u by (rule execute_rejected)
  }
  {
    assume "circuitState b \<noteq> OPEN"
    then have adm: "admit (circuit this) (clock s) b = Some b" by (rule admit_not_open)
    show "fst (withDatabase this operation context (b, s)) = map_sum Raised id (fst (?act s))"
      unfolding u
      by (cases "fst (?act s)") (simp_all add: execute_failing [OF adm] execute_succeeding [OF adm])
    show "snd (snd (withDatabase this operation context (b, s))) = snd (?act s)"
      unfolding u
      by (cases "isl (fst (?act s))") (simp_all add: execute_failing [OF adm] execute_succeeding [OF adm])
    show "fst (snd (withDatabase this operation context (b, s))) =
            (if isl (fst (?act s)) then onFailure (circuit this) (clock (snd (?act s))) b
             else onSuccess (circuit this) b)"
      unfolding u
      by (cases "isl (fst (?act s))") (simp_all add: execute_failing [OF adm] execute_succeeding [OF adm])
  }
  {
    assume a: "circuitState b = CLOSED \<and> 1 \<le> maxRetries (retry this)
        \<and> (\<forall>j < maxRetries (retry this). isl (fst (operation (worldAfter operation j (world s)))))"
    then have c: "circuitState b = CLOSED" and m: "1 \<le> maxRetries (retry this)" by simp_all
    from a have fails: "\<forall>j \<le> maxRetries (retry this) - 1.
                          isl (fst (operation (worldAfter operation j (world s))))" by auto
    have one: "(1::nat) \<le> 1" by simp
    from loop_all_fail [OF one m fails, of "ErrorObject ''Unknown error''"] m
    have r: "isl (fst (?act s))" "world (snd (?act s)) = worldAfter operation (maxRetries (retry this)) (world s)"
      unfolding withRetry_def
      by (cases "withRetry_loop (retry this) operation 1 (ErrorObject ''Unknown error'') s"; simp)+
    from c have adm: "admit (circuit this) (clock s) b = Some b" by (simp add: admit_not_open)
    have x: "execute (circuit this) ?act (b, s) =
               (Inl (Raised (projl (fst (?act s)))), onFailure (circuit this) (clock (snd (?act s))) b,
                snd (?act s))"
      using adm r(1) by (rule execute_failing)
    show "world (snd (snd (withDatabase this operation context (b, s)))) =
            worldAfter operation (maxRetries (retry this)) (world s)"
      unfolding u x using r(2) by simp
    show "failureCount (fst (snd (withDatabase this operation context (b, s)))) = Suc (failureCount b)"
      unfolding u x using c by (simp add: onFailure_def)
  }
qed

text \<open>
  The adapter on a store that is always down: behind an OPEN breaker inside its timeout
  nothing runs; behind a CLOSED one the store sees three calls, the runtime is that of
  the retry loop, and the breaker counts one failure.
\<close>

theorem breaker_around_retry_witness:
  "withDatabase GlacierDBDatabaseAdapter alwaysDown ''query'' (tripped_breaker, runtime0\<lparr>clock := 2000\<rparr>)
     = (Inl CircuitOpenError, tripped_breaker, runtime0\<lparr>clock := 2000\<rparr>)
   \<and> world (snd (snd (withDatabase GlacierDBDatabaseAdapter alwaysDown ''query''
                         (closed_breaker, runtime0)))) = 3
   \<and> failureCount (fst (snd (withDatabase GlacierDBDatabaseAdapter alwaysDown ''query''
                         (closed_breaker, runtime0)))) = 1
   \<and> snd (snd (withDatabase GlacierDBDatabaseAdapter alwaysDown ''query'' (closed_breaker, runtime0)))
       = snd (withRetry glacier_settings alwaysDown runtime0)"
proof -
  have early: "circuitState tripped_breaker = OPEN
               \<and> clock (runtime0\<lparr>clock := 2000\<rparr>) - lastTransition tripped_breaker
                   < resetTimeout (circuit GlacierDBDatabaseAdapter)"
    by simp
  have fails: "circuitState closed_breaker = CLOSED \<and> 1 \<le> maxRetries (retry GlacierDBDatabaseAdapter)
               \<and> (\<forall>j < maxRetries (retry GlacierDBDatabaseAdapter).
                     isl (fst (alwaysDown (worldAfter alwaysDown j (world runtime0)))))"
    by simp
  have closed: "circuitState closed_breaker \<noteq> OPEN" by simp
  from breaker_around_retry [of GlacierDBDatabaseAdapter alwaysDown "''query''" tripped_breaker
                                "runtime0\<lparr>clock := 2000\<rparr>"] early
  have A: "withDatabase GlacierDBDatabaseAdapter alwaysDown ''query''
             (tripped_breaker, runtime0\<lparr>clock := 2000\<rparr>)
           = (Inl CircuitOpenError, tripped_breaker, runtime0\<lparr>clock := 2000\<rparr>)"
    by blast
  note T = breaker_around_retry [of GlacierDBDatabaseAdapter alwaysDown "''query''" closed_breaker runtime0]
  from T fails have B:
    "world (snd (snd (withDatabase GlacierDBDatabaseAdapter alwaysDown ''query''
                         (closed_breaker, runtime0)))) =
       worldAfter alwaysDown (maxRetries (retry GlacierDBDatabaseAdapter)) (world runtime0)"
    "failureCount (fst (snd (withDatabase GlacierDBDatabaseAdapter alwaysDown ''query''
                         (closed_breaker, runtime0)))) = Suc (failureCount closed_breaker)"
    by blast+
  from T closed have C:
    "snd (snd (withDatabase GlacierDBDatabaseAdapter alwaysDown ''query'' (closed_breaker, runtime0)))
       = snd (withRetry (retry GlacierDBDatabaseAdapter) alwaysDown runtime0)"
    by blast
  from A B C show ?thesis by simp
qed

section \<open>The breaker's states\<close>




text \<open>
  C5. While the breaker is OPEN: a call made when less than \<open>resetTimeout\<close> has elapsed
  since the transition fails with \<open>CircuitOpenError\<close> and leaves breaker and runtime as
  they were, so the operation was not invoked; a call made at or after \<open>resetTimeout\<close>
  puts the breaker in HALF_OPEN and runs the operation exactly once: result and runtime
  are those of this one run, and its outcome is recorded on the HALF_OPEN breaker.
\<close>

theorem open_breaker_gate:
  assumes "circuitState b = OPEN"
  shows "(clock s - lastTransition b < resetTimeout cfg \<longrightarrow>
            execute cfg act (b, s) = (Inl CircuitOpenError, b, s))
         \<and> (resetTimeout cfg \<le> clock s - lastTransition b \<longrightarrow>
            admit cfg (clock s) b = Some (b\<lparr>circuitState := HALF_OPEN, halfOpenTrials := 0\<rparr>)
            \<and> fst (execute cfg act (b, s)) = map_sum Raised id (fst (act s))
            \<and> snd (snd (execute cfg act (b, s))) = snd (act s)
            \<and> fst (snd (execute cfg act (b, s))) =
                (if isl (fst (act s))
                 then onFailure cfg (clock (snd (act s))) (b\<lparr>circuitState := HALF_OPEN, halfOpenTrials := 0\<rparr>)
                 else onSuccess cfg (b\<lparr>circuitState := HALF_OPEN, halfOpenTrials := 0\<rparr>)))"
proof (intro conjI impI)
  assume "clock s - lastTransition b < resetTimeout cfg"
  with assms have "admit cfg (clock s) b = None" by (rule admit_open_early)
  then show "execute cfg act (b, s) = (Inl CircuitOpenError, b, s)" by (rule execute_rejected)
next
  assume late: "resetTimeout cfg \<le> clock s - lastTransition b"
  let ?h = "b\<lparr>circuitState := HALF_OPEN, halfOpenTrials := 0\<rparr>"
  from assms late show adm: "admit cfg (clock s) b = Some ?h" by (rule admit_open_late)
  show "fst (execute cfg act (b, s)) = map_sum Raised id (fst (act s))"
    by (cases "fst (act s)")
       (simp_all add: execute_failing [OF adm] execute_succeeding [OF adm])
  show "snd (snd (execute cfg act (b, s))) = snd (act s)"
    by (cases "isl (fst (act s))") (simp_all add: execute_failing [OF adm] execute_succeeding [OF adm])
  show "fst (snd (execute cfg act (b, s))) =
                (if isl (fst (act s))
                 then onFailure cfg (clock (snd (act s))) ?h
                 else onSuccess cfg ?h)"
    by (cases "isl (fst (act s))") (simp_all add: execute_failing [OF adm] execute_succeeding [OF adm])
qed

text \<open>
  A breaker that opened at time 1000 with a reset timeout of 60000: a call at time 2000
  is refused, a call at time 61000 goes through as a trial.
\<close>

theorem open_breaker_gate_witness:
  "circuitState tripped_breaker = OPEN
   \<and> execute glacier_breaker_settings succeedingCall (tripped_breaker, runtime0\<lparr>clock := 2000\<rparr>)
       = (Inl CircuitOpenError, tripped_breaker, runtime0\<lparr>clock := 2000\<rparr>)
   \<and> fst (execute glacier_breaker_settings succeedingCall (tripped_breaker, runtime0\<lparr>clock := 61000\<rparr>))
       = Inr 1
   \<and> world (snd (snd (execute glacier_breaker_settings succeedingCall
                         (tripped_breaker, runtime0\<lparr>clock := 61000\<rparr>)))) = 1
   \<and> circuitState (fst (snd (execute glacier_breaker_settings succeedingCall
                         (tripped_breaker, runtime0\<lparr>clock := 61000\<rparr>)))) = HALF_OPEN"
proof -
  have o: "circuitState tripped_breaker = OPEN" by simp
  have early: "clock (runtime0\<lparr>clock := 2000\<rparr>) - lastTransition tripped_breaker
                 < resetTimeout glacier_breaker_settings" by simp
  have late: "resetTimeout glacier_breaker_settings
                \<le> clock (runtime0\<lparr>clock := 61000\<rparr>) - lastTransition tripped_breaker" by simp
  from open_breaker_gate [OF o, of "runtime0\<lparr>clock := 2000\<rparr>" glacier_breaker_settings succeedingCall] early
  have A: "execute glacier_breaker_settings succeedingCall (tripped_breaker, runtime0\<lparr>clock := 2000\<rparr>)
       = (Inl CircuitOpenError, tripped_breaker, runtime0\<lparr>clock := 2000\<rparr>)" by blast
  from open_breaker_gate [OF o, of "runtime0\<lparr>clock := 61000\<rparr>" glacier_breaker_settings succeedingCall] late
  have B: "fst (execute glacier_breaker_settings succeedingCall (tripped_breaker, runtime0\<lparr>clock := 61000\<rparr>))
             = map_sum Raised id (fst (succeedingCall (runtime0\<lparr>clock := 61000\<rparr>)))"
    "snd (snd (execute glacier_breaker_settings succeedingCall (tripped_breaker, runtime0\<lparr>clock := 61000\<rparr>)))
             = snd (succeedingCall (runtime0\<lparr>clock := 61000\<rparr>))"
    "fst (snd (execute glacier_breaker_settings succeedingCall (tripped_breaker, runtime0\<lparr>clock := 61000\<rparr>)))
             = (if isl (fst (succeedingCall (runtime0\<lparr>clock := 61000\<rparr>)))
                then onFailure glacier_breaker_settings (clock (snd (succeedingCall (runtime0\<lparr>clock := 61000\<rparr>))))
                       (tripped_breaker\<lparr>circuitState := HALF_OPEN, halfOpenTrials := 0\<rparr>)
                else onSuccess glacier_breaker_settings
                       (tripped_breaker\<lparr>circuitState := HALF_OPEN, halfOpenTrials := 0\<rparr>))"
    by blast+
  from o A B show ?thesis by (simp add: onSuccess_def)
qed

text \<open>
  C6. While the breaker is HALF_OPEN: successful calls leave it HALF_OPEN until the
  number of successful trials reaches \<open>halfOpenMaxAttempts\<close>, and the call that reaches
  it closes the breaker with the failure count at zero; a call that fails opens the
  breaker at once, propagates the failure, and restarts the OPEN timer at the time of
  the failure.
\<close>

theorem half_open_trials:
  assumes "circuitState b = HALF_OPEN"
  shows "((\<forall>s. \<not> isl (fst (act s))) \<and> halfOpenTrials b + n = halfOpenMaxAttempts cfg \<and> 0 < n \<longrightarrow>
            (\<forall>k < n. circuitState (fst (executeTimes k cfg act (b, s))) = HALF_OPEN)
            \<and> circuitState (fst (executeTimes n cfg act (b, s))) = CLOSED
            \<and> failureCount (fst (executeTimes n cfg act (b, s))) = 0)
         \<and> (isl (fst (act s)) \<longrightarrow>
            fst (execute cfg act (b, s)) = Inl (Raised (projl (fst (act s))))
            \<and> circuitState (fst (snd (execute cfg act (b, s)))) = OPEN
            \<and> lastTransition (fst (snd (execute cfg act (b, s)))) = clock (snd (act s)))"
proof (intro conjI impI)
  assume a: "(\<forall>s. \<not> isl (fst (act s))) \<and> halfOpenTrials b + n = halfOpenMaxAttempts cfg \<and> 0 < n"
  then have ok: "\<forall>s. \<not> isl (fst (act s))" and sum: "halfOpenTrials b + n = halfOpenMaxAttempts cfg"
    and pos: "0 < n" by simp_all
  show "\<forall>k < n. circuitState (fst (executeTimes k cfg act (b, s))) = HALF_OPEN"
  proof (intro allI impI)
    fix k assume "k < n"
    with sum have "halfOpenTrials b + k < halfOpenMaxAttempts cfg" by simp
    from half_open_counts_successes [OF assms ok this]
    show "circuitState (fst (executeTimes k cfg act (b, s))) = HALF_OPEN" by simp
  qed
  from pos obtain k where n: "n = Suc k" by (cases n) auto
  obtain bk sk where e: "executeTimes k cfg act (b, s) = (bk, sk)" by (cases "executeTimes k cfg act (b, s)")
  from sum n have "halfOpenTrials b + k < halfOpenMaxAttempts cfg" by simp
  from half_open_counts_successes [OF assms ok this, of s] e
  have bk: "circuitState bk = HALF_OPEN" "halfOpenTrials bk = halfOpenTrials b + k" by simp_all
  then have "admit cfg (clock sk) bk = Some bk" by (simp add: admit_not_open)
  moreover from ok have "\<not> isl (fst (act sk))" ..
  ultimately have x: "execute cfg act (bk, sk) = (Inr (projr (fst (act sk))), onSuccess cfg bk, snd (act sk))"
    by (rule execute_succeeding)
  have "circuitState (onSuccess cfg bk) = CLOSED \<and> failureCount (onSuccess cfg bk) = 0"
    using bk sum n by (simp add: onSuccess_def)
  with x e n show "circuitState (fst (executeTimes n cfg act (b, s))) = CLOSED"
    and "failureCount (fst (executeTimes n cfg act (b, s))) = 0" by simp_all
next
  assume f: "isl (fst (act s))"
  from assms have adm: "admit cfg (clock s) b = Some b" by (simp add: admit_not_open)
  have x: "execute cfg act (b, s) =
             (Inl (Raised (projl (fst (act s)))), onFailure cfg (clock (snd (act s))) b, snd (act s))"
    using adm f by (rule execute_failing)
  then show "fst (execute cfg act (b, s)) = Inl (Raised (projl (fst (act s))))" by simp
  from x assms show "circuitState (fst (snd (execute cfg act (b, s)))) = OPEN"
    by (simp add: onFailure_def)
  from x assms show "lastTransition (fst (snd (execute cfg act (b, s)))) = clock (snd (act s))"
    by (simp add: onFailure_def)
qed

text \<open>
  With \<open>halfOpenMaxAttempts = 3\<close>: two successes leave the breaker HALF_OPEN, the third
  closes it; a failure at time 70000 reopens it, timer at 70000.
\<close>

theorem half_open_trials_witness:
  "circuitState (tripped_breaker\<lparr>circuitState := HALF_OPEN\<rparr>) = HALF_OPEN
   \<and> circuitState (fst (executeTimes 2 glacier_breaker_settings succeedingCall
        (tripped_breaker\<lparr>circuitState := HALF_OPEN\<rparr>, runtime0))) = HALF_OPEN
   \<and> circuitState (fst (executeTimes 3 glacier_breaker_settings succeedingCall
        (tripped_breaker\<lparr>circuitState := HALF_OPEN\<rparr>, runtime0))) = CLOSED
   \<and> failureCount (fst (executeTimes 3 glacier_breaker_settings succeedingCall
        (tripped_breaker\<lparr>circuitState := HALF_OPEN\<rparr>, runtime0))) = 0
   \<and> circuitState (fst (snd (execute glacier_breaker_settings failingCall
        (tripped_breaker\<lparr>circuitState := HALF_OPEN\<rparr>, runtime0\<lparr>clock := 70000\<rparr>)))) = OPEN
   \<and> lastTransition (fst (snd (execute glacier_breaker_settings failingCall
        (tripped_breaker\<lparr>circuitState := HALF_OPEN\<rparr>, runtime0\<lparr>clock := 70000\<rparr>)))) = 70000"
proof -
  let ?b = "tripped_breaker\<lparr>circuitState := HALF_OPEN\<rparr>"
  have h: "circuitState ?b = HALF_OPEN" by simp
  have s: "(\<forall>s. \<not> isl (fst (succeedingCall s)))
           \<and> halfOpenTrials ?b + 3 = halfOpenMaxAttempts glacier_breaker_settings \<and> 0 < (3::nat)"
    by simp
  have f: "isl (fst (failingCall (runtime0\<lparr>clock := 70000\<rparr>)))" by simp
  from half_open_trials [OF h, of succeedingCall 3 glacier_breaker_settings runtime0] s
  have A: "\<forall>k < 3. circuitState (fst (executeTimes k glacier_breaker_settings succeedingCall (?b, runtime0)))
                     = HALF_OPEN"
    "circuitState (fst (executeTimes 3 glacier_breaker_settings succeedingCall (?b, runtime0))) = CLOSED"
    "failureCount (fst (executeTimes 3 glacier_breaker_settings succeedingCall (?b, runtime0))) = 0"
    by blast+
  from A(1) have A2: "circuitState (fst (executeTimes 2 glacier_breaker_settings succeedingCall (?b, runtime0)))
                     = HALF_OPEN" by simp
  from half_open_trials [OF h, of failingCall n glacier_breaker_settings "runtime0\<lparr>clock := 70000\<rparr>"] f
  have B: "circuitState (fst (snd (execute glacier_breaker_settings failingCall
             (?b, runtime0\<lparr>clock := 70000\<rparr>)))) = OPEN"
    "lastTransition (fst (snd (execute glacier_breaker_settings failingCall
             (?b, runtime0\<lparr>clock := 70000\<rparr>)))) = 70000"
    by simp_all
  from h A2 A(2,3) B show ?thesis by blast
qed

section \<open>What the caller gets\<close>

text \<open>
  C7. At whatever attempt the loop is, an operation that succeeds there makes
  \<^verbatim>\<open>withRetry\<close> return that result at once: the store has seen this one call, nothing was
  drawn, slept or logged. Through the composed executor, with the breaker CLOSED and no
  failure counted, an operation that succeeds is invoked exactly once, its result is
  returned with no retry, and the breaker is left as it was.
\<close>

theorem success_returns_at_once:
  assumes "operation (world s) = (Inr result, w)"
    and "1 \<le> attempt" and "attempt \<le> maxRetries (retry this)"
    and "circuitState b = CLOSED" and "failureCount b = 0"
  shows "withRetry_loop (retry this) operation attempt lastError s = (Inr result, s\<lparr>world := w\<rparr>)
         \<and> withDatabase this operation context (b, s) = (Inr result, b, s\<lparr>world := w\<rparr>)"
proof
  show loop: "withRetry_loop (retry this) operation attempt lastError s = (Inr result, s\<lparr>world := w\<rparr>)"
    using assms(3) assms(1) by (rule loop_success)
  have "1 \<le> maxRetries (retry this)" using assms(2,3) by simp
  then have "withRetry (retry this) operation s = (Inr result, s\<lparr>world := w\<rparr>)"
    unfolding withRetry_def using assms(1) by (rule loop_success)
  moreover have "admit (circuit this) (clock s) b = Some b" using assms(4) by (simp add: admit_def)
  moreover have "onSuccess (circuit this) b = b" using assms(4,5) by (simp add: onSuccess_def)
  ultimately show "withDatabase this operation context (b, s) = (Inr result, b, s\<lparr>world := w\<rparr>)"
    by (simp add: withDatabase_def withCircuitBreaker_def execute_admitted)
qed

text \<open>
  The adapter's own settings, a closed breaker and a store that always answers.
\<close>

theorem success_returns_at_once_witness:
  "withRetry_loop (retry GlacierDBDatabaseAdapter) alwaysUp 1 (ErrorObject ''Unknown error'') runtime0
     = (Inr 1, runtime0\<lparr>world := 1\<rparr>)
   \<and> withDatabase GlacierDBDatabaseAdapter alwaysUp ''getRoom'' (closed_breaker, runtime0)
     = (Inr 1, closed_breaker, runtime0\<lparr>world := 1\<rparr>)"
proof -
  have 1: "alwaysUp (world runtime0) = (Inr 1, 1)" by (simp add: runtime0_def)
  have 2: "(1::nat) \<le> 1" by simp
  have 3: "1 \<le> maxRetries (retry GlacierDBDatabaseAdapter)"
    by (simp add: GlacierDBDatabaseAdapter_def glacier_settings_def)
  have 4: "circuitState closed_breaker = CLOSED" by (simp add: closed_breaker_def)
  have 5: "failureCount closed_breaker = 0" by (simp add: closed_breaker_def)
  from success_returns_at_once
         [where operation = alwaysUp and s = runtime0 and result = 1 and w = 1 and attempt = 1
            and this = GlacierDBDatabaseAdapter and b = closed_breaker, OF 1 2 3 4 5]
  show ?thesis by simp
qed

text \<open>
  C8. With \<open>maxRetries\<close> at least one, the outcome of the retry loop is that of the
  operation's own attempts, taken one after the other from the state the call finds:
  when all \<open>maxRetries\<close> attempts fail, the loop fails, with the error of the last attempt
  (that very \<^verbatim>\<open>Error\<close>, or \<^verbatim>\<open>new Error(String(error))\<close> for another value); when attempt
  \<open>k + 1\<close> is the first to succeed, the loop returns its result. A call through the
  executor fails with \<open>CircuitOpenError\<close> when the breaker refuses it, and otherwise returns
  the value of the loop or propagates its error: no failure becomes a value.
\<close>

theorem failures_are_propagated:
  assumes "1 \<le> maxRetries (retry this)"
  shows "((\<forall>j < maxRetries (retry this). isl (fst (operation (worldAfter operation j (world s))))) \<longrightarrow>
            fst (withRetry (retry this) operation s) =
              Inl (case projl (fst (operation
                                     (worldAfter operation (maxRetries (retry this) - 1) (world s)))) of
                     ErrorObject message \<Rightarrow> ErrorObject message
                   | NonError str \<Rightarrow> ErrorObject str))
         \<and> (k < maxRetries (retry this)
              \<and> (\<forall>j < k. isl (fst (operation (worldAfter operation j (world s)))))
              \<and> fst (operation (worldAfter operation k (world s))) = Inr v \<longrightarrow>
            fst (withRetry (retry this) operation s) = Inr v)
         \<and> fst (withDatabase this operation context (b, s)) =
             (case admit (circuit this) (clock s) b of
                None \<Rightarrow> Inl CircuitOpenError
              | Some b1 \<Rightarrow>
                  (case fst (withRetry (retry this) operation s) of
                     Inl e \<Rightarrow> Inl (Raised e)
                   | Inr v \<Rightarrow> Inr v))"
proof (intro conjI impI)
  assume all: "\<forall>j < maxRetries (retry this). isl (fst (operation (worldAfter operation j (world s))))"
  then have fails: "\<forall>j \<le> maxRetries (retry this) - 1.
                      isl (fst (operation (worldAfter operation j (world s))))"
    using assms by auto
  have one: "(1::nat) \<le> 1" by simp
  let ?e = "projl (fst (operation (worldAfter operation (maxRetries (retry this) - 1) (world s))))"
  from loop_all_fail [OF one assms fails, of "ErrorObject ''Unknown error''"]
  have "fst (withRetry (retry this) operation s) = Inl (asError ?e)"
    unfolding withRetry_def
    by (cases "withRetry_loop (retry this) operation 1 (ErrorObject ''Unknown error'') s") simp
  moreover have "asError ?e = (case ?e of ErrorObject message \<Rightarrow> ErrorObject message
                                | NonError str \<Rightarrow> ErrorObject str)"
    by (cases ?e) simp_all
  ultimately show "fst (withRetry (retry this) operation s) =
              Inl (case ?e of ErrorObject message \<Rightarrow> ErrorObject message
                   | NonError str \<Rightarrow> ErrorObject str)"
    by simp
next
  assume a: "k < maxRetries (retry this)
              \<and> (\<forall>j < k. isl (fst (operation (worldAfter operation j (world s)))))
              \<and> fst (operation (worldAfter operation k (world s))) = Inr v"
  then have 1: "1 + k \<le> maxRetries (retry this)" by simp
  from a have 2: "\<forall>j < k. isl (fst (operation (worldAfter operation j (world s))))" by simp
  from a have 3: "fst (operation (worldAfter operation k (world s))) = Inr v" by simp
  from 1 2 3 show "fst (withRetry (retry this) operation s) = Inr v"
    unfolding withRetry_def by (rule loop_first_success)
next
  show "fst (withDatabase this operation context (b, s)) =
             (case admit (circuit this) (clock s) b of
                None \<Rightarrow> Inl CircuitOpenError
              | Some b1 \<Rightarrow>
                  (case fst (withRetry (retry this) operation s) of
                     Inl e \<Rightarrow> Inl (Raised e)
                   | Inr v \<Rightarrow> Inr v))"
    by (simp add: withDatabase_unfold execute_def split: option.splits prod.splits sum.splits)
qed

text \<open>
  The adapter's settings: a store that is always down gives its error back, one that
  throws a text gives an \<^verbatim>\<open>Error\<close> of that text, one that is down for two calls gives the
  value of the third; behind an OPEN breaker inside its timeout the call is refused.
\<close>

theorem failures_are_propagated_witness:
  "1 \<le> maxRetries (retry GlacierDBDatabaseAdapter)
   \<and> fst (withRetry glacier_settings alwaysDown runtime0) = Inl (ErrorObject ''down'')
   \<and> fst (withRetry glacier_settings alwaysThrowsText runtime0) = Inl (ErrorObject ''timeout'')
   \<and> fst (withRetry glacier_settings (downFor 2) runtime0) = Inr 3
   \<and> fst (withDatabase GlacierDBDatabaseAdapter alwaysDown ''query'' (closed_breaker, runtime0))
       = Inl (Raised (ErrorObject ''down''))
   \<and> fst (withDatabase GlacierDBDatabaseAdapter (downFor 2) ''query'' (closed_breaker, runtime0))
       = Inr 3
   \<and> fst (withDatabase GlacierDBDatabaseAdapter (downFor 2) ''query''
             (tripped_breaker, runtime0\<lparr>clock := 2000\<rparr>))
       = Inl CircuitOpenError"
proof -
  have 1: "1 \<le> maxRetries (retry GlacierDBDatabaseAdapter)" by simp
  have down: "\<forall>j < maxRetries (retry GlacierDBDatabaseAdapter).
                isl (fst (alwaysDown (worldAfter alwaysDown j (world runtime0))))"
    by simp
  have thrown: "\<forall>j < maxRetries (retry GlacierDBDatabaseAdapter).
                isl (fst (alwaysThrowsText (worldAfter alwaysThrowsText j (world runtime0))))"
    by simp
  have third: "2 < maxRetries (retry GlacierDBDatabaseAdapter)
               \<and> (\<forall>j < 2. isl (fst (downFor 2 (worldAfter (downFor 2) j (world runtime0)))))
               \<and> fst (downFor 2 (worldAfter (downFor 2) 2 (world runtime0))) = Inr 3"
    by (simp add: downFor_def)
  note D = failures_are_propagated
             [OF 1, where operation = alwaysDown and s = runtime0 and b = closed_breaker]
  note X = failures_are_propagated
             [OF 1, where operation = alwaysThrowsText and s = runtime0]
  note S = failures_are_propagated
             [OF 1, where operation = "downFor 2" and s = runtime0 and k = 2 and v = 3
                and b = closed_breaker]
  note O = failures_are_propagated
             [OF 1, where operation = "downFor 2" and s = "runtime0\<lparr>clock := 2000\<rparr>"
                and b = tripped_breaker]
  from D down have a: "fst (withRetry glacier_settings alwaysDown runtime0) = Inl (ErrorObject ''down'')"
    by simp
  from X thrown have x: "fst (withRetry glacier_settings alwaysThrowsText runtime0)
                        = Inl (ErrorObject ''timeout'')"
    by simp
  from S third have s: "fst (withRetry glacier_settings (downFor 2) runtime0) = Inr 3"
    by simp
  have adm: "admit glacier_breaker_settings (clock runtime0) closed_breaker = Some closed_breaker"
    by (simp add: admit_not_open)
  have ref: "admit glacier_breaker_settings (clock (runtime0\<lparr>clock := 2000\<rparr>)) tripped_breaker = None"
    by (simp add: admit_open_early)
  from D a adm have da: "fst (withDatabase GlacierDBDatabaseAdapter alwaysDown ''query''
                                (closed_breaker, runtime0)) = Inl (Raised (ErrorObject ''down''))"
    by simp
  from S s adm have ds: "fst (withDatabase GlacierDBDatabaseAdapter (downFor 2) ''query''
                                (closed_breaker, runtime0)) = Inr 3"
    by simp
  from O ref have dr: "fst (withDatabase GlacierDBDatabaseAdapter (downFor 2) ''query''
                               (tripped_breaker, runtime0\<lparr>clock := 2000\<rparr>)) = Inl CircuitOpenError"
    by simp
  from 1 a x s da ds dr show ?thesis by blast
qed

section \<open>The two methods\<close>

text \<open>
  C9 (as amended). The one cursor \<^verbatim>\<open>getMemories\<close> hands to the client carries the limit
  20 when \<^verbatim>\<open>params.count\<close> is given and greater than 20, and no limit when \<^verbatim>\<open>params.count\<close>
  is omitted. So, for a client whose \<^verbatim>\<open>limit(n)\<close> yields at most \<open>n\<close> records,
  \<^verbatim>\<open>getMemories\<close> returns at most 20 records whenever a count is given, whatever the
  count.
\<close>

theorem getMemories_at_most_20:
  assumes contract: "\<forall>c w rows w'. toArray c w = (Inr rows, w') \<longrightarrow>
                       (case limit c of Some n \<Rightarrow> int (length rows) \<le> n | None \<Rightarrow> True)"
  shows "(count params = Some n \<and> 20 < n \<longrightarrow> limit (getMemories_cursor params) = Some 20)
         \<and> (count params = None \<longrightarrow> limit (getMemories_cursor params) = None)
         \<and> ((\<forall>w. toArray' (getMemories_cursor params) w = toArray (getMemories_cursor params) w) \<longrightarrow>
              getMemories this toArray' JSON_parse params bs =
                getMemories this toArray JSON_parse params bs)
         \<and> (count params = Some n
              \<and> fst (getMemories this toArray JSON_parse params bs) = Inr memories \<longrightarrow>
              length memories \<le> 20)"
proof (intro conjI impI)
  assume "count params = Some n \<and> 20 < n"
  then show "limit (getMemories_cursor params) = Some 20"
    by (simp add: getMemories_cursor_def getMemories_limit_def)
next
  assume "count params = None"
  then show "limit (getMemories_cursor params) = None"
    by (simp add: getMemories_cursor_def getMemories_limit_def)
next
  assume "\<forall>w. toArray' (getMemories_cursor params) w = toArray (getMemories_cursor params) w"
  then have "getMemories_operation toArray' JSON_parse params =
             getMemories_operation toArray JSON_parse params"
    by (intro ext) (simp add: getMemories_operation_def)
  then show "getMemories this toArray' JSON_parse params bs =
               getMemories this toArray JSON_parse params bs"
    by (simp add: getMemories_def)
next
  assume a: "count params = Some n
              \<and> fst (getMemories this toArray JSON_parse params bs) = Inr memories"
  then have given: "count params = Some n" by simp
  from a have "fst (withDatabase this (getMemories_operation toArray JSON_parse params) ''getMemories'' bs)
               = Inr memories"
    by (auto simp: getMemories_def split: if_splits)
  from withDatabase_result [OF this]
  obtain w where "fst (getMemories_operation toArray JSON_parse params w) = Inr memories" ..
  with contract given show "length memories \<le> 20" by (rule getMemories_operation_length)
qed

text \<open>
  A store of thirty memories asked for fifty: the limit is 20, twenty come back, and a
  client that refuses every other limit gives the same answer. With the count left out
  the cursor has no limit.
\<close>

theorem getMemories_at_most_20_witness:
  "count someParams = Some 50
   \<and> limit (getMemories_cursor someParams) = Some 20
   \<and> limit (getMemories_cursor (someParams\<lparr>count := None\<rparr>)) = None
   \<and> getMemories GlacierDBDatabaseAdapter twentyOnly parseLength someParams
        (closed_breaker, memoryRuntime)
      = getMemories GlacierDBDatabaseAdapter firstRows parseLength someParams
          (closed_breaker, memoryRuntime)
   \<and> fst (getMemories GlacierDBDatabaseAdapter firstRows parseLength someParams
             (closed_breaker, memoryRuntime))
       = Inr (replicate 20 \<lparr>memoryId = ''m'', content = Object 0\<rparr>)
   \<and> length (replicate 20 \<lparr>memoryId = ''m'', content = Object (0::nat)\<rparr>) \<le> 20"
proof -
  have given: "count someParams = Some 50 \<and> (20::int) < 50" by (simp add: someParams_def)
  have none: "count (someParams\<lparr>count := None\<rparr>) = None" by simp
  have res: "fst (getMemories GlacierDBDatabaseAdapter firstRows parseLength someParams
                    (closed_breaker, memoryRuntime))
             = Inr (replicate 20 \<lparr>memoryId = ''m'', content = Object 0\<rparr>)"
    by (simp add: getMemories_example)
  have lim: "limit (getMemories_cursor someParams) = Some 20"
    by (simp add: getMemories_cursor_def getMemories_limit_def someParams_def)
  have same: "\<forall>w. twentyOnly (getMemories_cursor someParams) w
                    = firstRows (getMemories_cursor someParams) w"
    by (simp add: twentyOnly_def lim)
  note T = getMemories_at_most_20
             [OF firstRows_contract, where params = someParams and n = 50
                and this = GlacierDBDatabaseAdapter and JSON_parse = parseLength
                and bs = "(closed_breaker, memoryRuntime)" and toArray' = twentyOnly
                and memories = "replicate 20 \<lparr>memoryId = ''m'', content = Object 0\<rparr>"]
  note N = getMemories_at_most_20
             [OF firstRows_contract, where params = "someParams\<lparr>count := None\<rparr>"]
  from T given have l: "limit (getMemories_cursor someParams) = Some 20" by blast
  from N none have n: "limit (getMemories_cursor (someParams\<lparr>count := None\<rparr>)) = None" by blast
  from T same have e: "getMemories GlacierDBDatabaseAdapter twentyOnly parseLength someParams
        (closed_breaker, memoryRuntime)
      = getMemories GlacierDBDatabaseAdapter firstRows parseLength someParams
          (closed_breaker, memoryRuntime)" by blast
  from T given res
  have len: "length (replicate 20 \<lparr>memoryId = ''m'', content = Object (0::nat)\<rparr>) \<le> 20" by blast
  from given l n e res len show ?thesis by blast
qed

text \<open>
  C9 as stated fails when \<^verbatim>\<open>params.count\<close> is omitted, as the signature allows:
  \<^verbatim>\<open>undefined > 20\<close> is false, the cursor carries no limit, and a store of thirty
  memories (whose client keeps to every limit it is given) returns all thirty.
\<close>

theorem getMemories_at_most_20_counterexample:
  "count (someParams\<lparr>count := None\<rparr>) = None
   \<and> fst (getMemories GlacierDBDatabaseAdapter firstRows parseLength (someParams\<lparr>count := None\<rparr>)
             (closed_breaker, memoryRuntime))
       = Inr thirtyRows
   \<and> length thirtyRows = 30
   \<and> \<not> length thirtyRows \<le> 20"
proof -
  let ?p = "someParams\<lparr>count := None\<rparr>"
  have lim: "limit (getMemories_cursor ?p) = None"
    by (simp add: getMemories_cursor_def getMemories_limit_def)
  have rows: "firstRows (getMemories_cursor ?p) thirtyRows = (Inr thirtyRows, thirtyRows)"
    by (simp add: firstRows_def lim)
  have "parseContents parseLength thirtyRows = Inr thirtyRows"
    by (rule parseContents_objects) (simp add: thirtyRows_def)
  with rows have op: "getMemories_operation firstRows parseLength ?p (world memoryRuntime)
                        = (Inr thirtyRows, thirtyRows)"
    by (simp add: getMemories_operation_def memoryRuntime_def)
  have "withDatabase GlacierDBDatabaseAdapter (getMemories_operation firstRows parseLength ?p)
          ''getMemories'' (closed_breaker, memoryRuntime)
        = (Inr thirtyRows, closed_breaker, memoryRuntime\<lparr>world := thirtyRows\<rparr>)"
    using op by (rule withDatabase_first_success) simp_all
  then have "fst (getMemories GlacierDBDatabaseAdapter firstRows parseLength ?p
                    (closed_breaker, memoryRuntime)) = Inr thirtyRows"
    by (simp add: getMemories_def someParams_def)
  moreover have "length thirtyRows = 30" by (simp add: thirtyRows_def)
  ultimately show ?thesis by simp
qed

text \<open>
  C10. Whatever its argument, \<^verbatim>\<open>getCachedEmbeddings\<close> returns the empty list, and breaker
  and runtime are as before: no call on the store, no retry, nothing recorded by the
  breaker.
\<close>

theorem getCachedEmbeddings_empty:
  "getCachedEmbeddings this opts (b, s) = (Inr [], b, s)"
  by (simp add: getCachedEmbeddings_def)

end
